theory Spec2Isabelle
  imports Main
begin

text \<open>
  A shallow embedding of the peer-support bot: the tables of \<^verbatim>\<open>database.py\<close>,
  the bounds of \<^verbatim>\<open>config.py\<close>, and of \<^verbatim>\<open>bot.py\<close> the age bands, the
  matchmaking engine (\<^verbatim>\<open>add_to_queue\<close>, \<^verbatim>\<open>remove_from_queue\<close>,
  \<^verbatim>\<open>find_match\<close>, \<^verbatim>\<open>create_chat\<close>), the message relay
  (\<^verbatim>\<open>handle_message\<close>), the menu router (\<^verbatim>\<open>handle_callback\<close> with
  \<^verbatim>\<open>show_chat_history\<close>, \<^verbatim>\<open>view_chat_history\<close>, \<^verbatim>\<open>show_main_menu\<close>) and
  the periodic sweep (\<^verbatim>\<open>periodic_matchmaking_task\<close>). The onboarding conversation
  (\<^verbatim>\<open>start\<close>, \<^verbatim>\<open>handle_age\<close>, \<^verbatim>\<open>handle_role_selection\<close>,
  \<^verbatim>\<open>handle_problem_selection\<close>) and the wiring of \<^verbatim>\<open>main\<close> are not embedded.

  A handler is a function from the database before the update to the
  database after it and the calls made to the platform. Line numbers refer to
  \<^verbatim>\<open>bot.py\<close>.
\<close>

section \<open>Data model (database.py)\<close>

text \<open>
  The five tables of \<^verbatim>\<open>database.py\<close>. Every column that is an integer in the
  schema is an \<open>int\<close>; a \<^verbatim>\<open>DateTime\<close> is a point on an integer time line; a
  nullable column is an \<open>option\<close>. Record fields are global names in HOL, so the
  columns that several tables share (\<^verbatim>\<open>id\<close>, \<^verbatim>\<open>user_id\<close>, \<^verbatim>\<open>chat_id\<close>,
  \<^verbatim>\<open>role\<close>, \<^verbatim>\<open>problem_type\<close>, \<^verbatim>\<open>age\<close>, \<^verbatim>\<open>text\<close>) carry a one-letter table prefix.
\<close>

type_synonym time = int

record user =
  u_id :: int
  telegram_id :: int
  age :: int
  is_banned :: bool
  registered_at :: time
  current_chat_id :: "int option"
  current_role :: "string option"
  current_problem :: "string option"

record chat =
  c_id :: int
  user1_id :: int
  user2_id :: int
  role1 :: string
  role2 :: string
  c_problem_type :: string
  created_at :: time
  is_active :: bool
  ended_at :: "time option"

record message =
  m_id :: int
  m_chat_id :: int
  m_user_id :: int
  m_text :: string
  sent_at :: time

record chat_history =
  h_id :: int
  h_user_id :: int
  h_chat_id :: int
  viewed_at :: time

record queue_entry =
  q_id :: int
  q_user_id :: int
  q_role :: string
  q_problem_type :: string
  q_age :: int
  joined_at :: time

text \<open>
  The database: each table is the list of its rows in insertion order. The
  uniqueness constraints of the schema (primary keys, \<^verbatim>\<open>users.telegram_id\<close>,
  \<^verbatim>\<open>queue_entries.user_id\<close>) are not built into the type; a theorem that needs one
  states it.
\<close>

record db =
  users :: "user list"
  chats :: "chat list"
  messages :: "message list"
  history :: "chat_history list"
  queue_entries :: "queue_entry list"

subsection \<open>config.py\<close>

definition MIN_AGE :: int where
  "MIN_AGE = 14"

definition MAX_AGE :: int where
  "MAX_AGE = 18"

section \<open>Age bands (bot.py, get_age_range)\<close>

definition get_age_range :: "int \<Rightarrow> int \<times> int" where
  "get_age_range user_age =
     (if user_age = 14 then (14, 16)
      else if user_age = 15 then (14, 17)
      else if user_age = 16 then (14, 18)
      else if user_age = 17 then (15, 18)
      else if user_age = 18 then (16, 18)
      else (MIN_AGE, MAX_AGE))"

section \<open>What the handlers emit and how they fail\<close>

text \<open>
  The texts the bot sends are fixed Russian strings, some with an inline keyboard;
  each is one constructor here, named after what it says, with the line of
  \<^verbatim>\<open>bot.py\<close> that sends it. \<open>Verbatim\<close> is a user's own message text, relayed
  unchanged. A transcript line keeps the speaker label, the text and the
  timestamp (the source prints the timestamp to the minute).
\<close>

datatype speaker = You | Interlocutor

datatype content =
    Start_first                \<comment> \<open>line 359\<close>
  | Blocked                    \<comment> \<open>line 363\<close>
  | Permanent_ban              \<comment> \<open>lines 372-375\<close>
  | Partner_not_found          \<comment> \<open>line 411\<close>
  | Chat_not_active            \<comment> \<open>line 413\<close>
  | No_chat_use_start          \<comment> \<open>lines 415-417\<close>
  | Access_denied              \<comment> \<open>line 433\<close>
  | Choose_role                \<comment> \<open>line 443\<close>
  | Choose_problem string      \<comment> \<open>line 455, the role written into the three payloads\<close>
  | Searching                  \<comment> \<open>lines 468-471\<close>
  | Partner_found int int
      \<comment> \<open>lines 483-497 and 784-798: the partner's age, the receiver's own age\<close>
  | Queued                     \<comment> \<open>lines 499-503\<close>
  | Partner_ended_chat         \<comment> \<open>lines 528-531\<close>
  | Chat_ended                 \<comment> \<open>line 612\<close>
  | Chat_not_found             \<comment> \<open>lines 614 and 680\<close>
  | No_current_chat            \<comment> \<open>line 616\<close>
  | History_empty              \<comment> \<open>line 640\<close>
  | History_list "(nat \<times> int \<times> string) list"
      \<comment> \<open>lines 655-669: one button per entry (number, partner's age, payload)\<close>
  | No_messages                \<comment> \<open>line 690\<close>
  | Transcript "(speaker \<times> string \<times> time) list"   \<comment> \<open>lines 694-705\<close>
  | Main_menu bool             \<comment> \<open>lines 336-345: whether a current chat is shown\<close>
  | Verbatim string            \<comment> \<open>line 408\<close>

text \<open>
  The three ways a handler talks to the platform: \<^verbatim>\<open>update.message.reply_text\<close>
  (to the sender of the message), \<^verbatim>\<open>context.bot.send_message(chat_id=...)\<close> (to an
  external account identifier) and \<^verbatim>\<open>query.edit_message_text\<close> (the message under
  the pressed button). The platform and the database engine are taken to answer
  every call; \<^verbatim>\<open>query.answer()\<close>, which carries no content, is not logged.
\<close>

datatype outbound =
    Reply_text content
  | Send_message int content
  | Edit_message_text content

text \<open>The exceptions the source can raise from the data it is given.\<close>

datatype error = MultipleResultsFound | ValueError | IndexError | OverflowError

text \<open>
  A handler run ends normally or by an exception that leaves the handler. Both
  carry the database as committed when the run ends (the session rolls back
  whatever was not committed) and the platform calls made up to then.
\<close>

datatype outcome =
    Done (db_of: db) (sent_of: "outbound list")
  | Raised error (db_of: db) (sent_of: "outbound list")

text \<open>
  \<^verbatim>\<open>datetime.utcnow()\<close>: the k-th reading of the clock within one handler run is
  \<open>clk k\<close>. Nothing is assumed about the readings.
\<close>

type_synonym clock = "nat \<Rightarrow> time"

section \<open>Library behaviour the source relies on\<close>

text \<open>\<^verbatim>\<open>Result.scalar_one_or_none()\<close>: no row, the one row, or an exception.\<close>

fun scalar_one_or_none :: "'a list \<Rightarrow> error + 'a option" where
  "scalar_one_or_none [] = Inr None"
| "scalar_one_or_none [x] = Inr (Some x)"
| "scalar_one_or_none (x # y # zs) = Inl MultipleResultsFound"

text \<open>
  Python's truth value of a nullable integer column, as in
  \<^verbatim>\<open>if user.current_chat_id:\<close>: \<^verbatim>\<open>None\<close> and 0 are false. The result is the
  reference when it counts as true.
\<close>

definition truthy_ref :: "int option \<Rightarrow> int option" where
  "truthy_ref r = (case r of None \<Rightarrow> None | Some i \<Rightarrow> if i = 0 then None else Some i)"

text \<open>
  The id SQLite gives a new row of an \<^verbatim>\<open>INTEGER PRIMARY KEY\<close> table whose ids
  it has handed out itself: one more than the largest id in use, 1 for an
  empty table.
\<close>

definition next_id :: "int list \<Rightarrow> int" where
  "next_id ids = foldr max ids 0 + 1"

text \<open>\<^verbatim>\<open>str.split("_")\<close>, \<^verbatim>\<open>"_".join(...)\<close>, \<^verbatim>\<open>str.startswith\<close> and list indexing.\<close>

fun split_us :: "string \<Rightarrow> string list" where
  "split_us [] = [[]]"
| "split_us (c # cs) =
     (if c = CHR ''_'' then [] # split_us cs
      else (case split_us cs of [] \<Rightarrow> [[c]] | w # ws \<Rightarrow> (c # w) # ws))"

fun join_us :: "string list \<Rightarrow> string" where
  "join_us [] = []"
| "join_us [w] = w"
| "join_us (w # v # ws) = w @ CHR ''_'' # join_us (v # ws)"

definition startswith :: "string \<Rightarrow> string \<Rightarrow> bool" where
  "startswith str p = (take (length p) str = p)"

definition py_index :: "'a list \<Rightarrow> nat \<Rightarrow> error + 'a" where
  "py_index xs i = (if i < length xs then Inr (xs ! i) else Inl IndexError)"

text \<open>
  \<^verbatim>\<open>int(str)\<close> on a string without underscores (the argument is a piece of a
  split at underscores): surrounding white space is dropped, one sign is
  allowed, and at least one decimal digit must follow and nothing else. A
  \<open>char\<close> is a code point below 256. Of these, \<^verbatim>\<open>int\<close> takes as white space
  the tab, line feed, vertical tab, form feed, carriage return and space, and
  the two spaces 0x85 and 0xA0 of the upper half; the separators 0x1C to 0x1F
  are not white space to it, and no code point from 128 to 255 is a decimal
  digit. A payload is at most 64 bytes, far below Python's limit on the
  number of digits.
\<close>

definition is_space :: "char \<Rightarrow> bool" where
  "is_space c = (of_char c \<in> {9, 10, 11, 12, 13, 32, 133, 160 :: nat})"

definition is_digit :: "char \<Rightarrow> bool" where
  "is_digit c = (48 \<le> (of_char c :: nat) \<and> (of_char c :: nat) \<le> 57)"

definition digit_val :: "char \<Rightarrow> int" where
  "digit_val c = int (of_char c) - 48"

definition strip :: "string \<Rightarrow> string" where
  "strip str = rev (dropWhile is_space (rev (dropWhile is_space str)))"

definition digits_value :: "string \<Rightarrow> error + int" where
  "digits_value ds =
     (if ds \<noteq> [] \<and> list_all is_digit ds
      then Inr (foldl (\<lambda>a c. 10 * a + digit_val c) 0 ds)
      else Inl ValueError)"

definition py_int :: "string \<Rightarrow> error + int" where
  "py_int str =
     (case strip str of
        [] \<Rightarrow> Inl ValueError
      | c # r \<Rightarrow>
          if c = CHR ''-'' then map_sum id uminus (digits_value r)
          else if c = CHR ''+'' then digits_value r
          else digits_value (c # r))"

text \<open>
  \<^verbatim>\<open>str(int)\<close>, as the f-string of line 658 formats a chat id: the decimal
  digits, most significant first, after a minus sign for a negative number.
\<close>

fun nat_digits :: "nat \<Rightarrow> string" where
  "nat_digits n =
     (if n < 10 then [char_of (48 + n)]
      else nat_digits (n div 10) @ [char_of (48 + n mod 10)])"

declare nat_digits.simps [simp del]

definition py_str :: "int \<Rightarrow> string" where
  "py_str i = (if i < 0 then CHR ''-'' # nat_digits (nat (- i)) else nat_digits (nat i))"

text \<open>
  The integers SQLite stores and takes as a parameter of a statement are the
  64-bit signed ones; the driver raises \<^verbatim>\<open>OverflowError\<close> when it is handed any
  other. The one integer a handler hands to a statement that comes neither
  from a stored row nor from the platform's account identifiers is the chat
  id read from a payload (line 619).
\<close>

definition sqlite_integer :: "int \<Rightarrow> bool" where
  "sqlite_integer i \<longleftrightarrow> - (2 ^ 63) \<le> i \<and> i < 2 ^ 63"

section \<open>Row updates\<close>

text \<open>
  An attribute assignment on a loaded row followed by a commit is an
  \<^verbatim>\<open>UPDATE ... WHERE id = ?\<close> on the row's primary key.
\<close>

definition upd_user :: "int \<Rightarrow> (user \<Rightarrow> user) \<Rightarrow> db \<Rightarrow> db" where
  "upd_user uid f s = s\<lparr>users := map (\<lambda>u. if u_id u = uid then f u else u) (users s)\<rparr>"

definition upd_chat :: "int \<Rightarrow> (chat \<Rightarrow> chat) \<Rightarrow> db \<Rightarrow> db" where
  "upd_chat cid f s = s\<lparr>chats := map (\<lambda>c. if c_id c = cid then f c else c) (chats s)\<rparr>"

section \<open>Matchmaking engine (bot.py)\<close>

subsection \<open>add_to_queue, remove_from_queue\<close>

definition add_to_queue :: "time \<Rightarrow> db \<Rightarrow> user \<Rightarrow> string \<Rightarrow> string \<Rightarrow> error + db" where
  "add_to_queue now s usr role problem =
     (case scalar_one_or_none (filter (\<lambda>q. q_user_id q = u_id usr) (queue_entries s)) of
        Inl e \<Rightarrow> Inl e
      | Inr (Some existing) \<Rightarrow>
          Inr (s\<lparr>queue_entries :=
                   map (\<lambda>q. if q_id q = q_id existing
                             then q\<lparr>q_role := role, q_problem_type := problem,
                                    q_age := age usr, joined_at := now\<rparr>
                             else q)
                       (queue_entries s)\<rparr>)
      | Inr None \<Rightarrow>
          Inr (s\<lparr>queue_entries := queue_entries s @
                   [\<lparr>q_id = next_id (map q_id (queue_entries s)), q_user_id = u_id usr,
                     q_role = role, q_problem_type = problem, q_age = age usr,
                     joined_at = now\<rparr>]\<rparr>))"

definition remove_from_queue :: "db \<Rightarrow> int \<Rightarrow> db" where
  "remove_from_queue s uid =
     s\<lparr>queue_entries := filter (\<lambda>q. q_user_id q \<noteq> uid) (queue_entries s)\<rparr>"

subsection \<open>find_match\<close>

definition opposite_role :: "string \<Rightarrow> string" where
  "opposite_role role = (if role = ''support'' then ''receive_support'' else ''support'')"

text \<open>
  The query of \<^verbatim>\<open>find_match\<close> (lines 277-289): the join of the queue with the
  users on \<^verbatim>\<open>QueueEntry.user_id == User.id\<close>, the seven conditions of the
  \<^verbatim>\<open>where\<close>, and the order by \<^verbatim>\<open>joined_at\<close>. The age tested is the one of the
  user row. SQL leaves the order of rows with equal \<^verbatim>\<open>joined_at\<close> open; the model
  keeps them in table order.
\<close>

definition match_query :: "db \<Rightarrow> user \<Rightarrow> string \<Rightarrow> string \<Rightarrow> (queue_entry \<times> user) list" where
  "match_query s usr role problem =
     (let (min_age, max_age) = get_age_range (age usr) in
      sort_key (\<lambda>(q, u). joined_at q)
        (filter (\<lambda>(q, u).
                   q_user_id q \<noteq> u_id usr \<and>
                   q_role q = opposite_role role \<and>
                   q_problem_type q = problem \<and>
                   age u \<ge> min_age \<and>
                   age u \<le> max_age \<and>
                   is_banned u = False \<and>
                   current_chat_id u = None)
           (concat (map (\<lambda>q. map (\<lambda>u. (q, u)) (filter (\<lambda>u. q_user_id q = u_id u) (users s)))
                        (queue_entries s)))))"

definition find_match :: "db \<Rightarrow> user \<Rightarrow> string \<Rightarrow> string \<Rightarrow> user option" where
  "find_match s usr role problem =
     (case match_query s usr role problem of
        [] \<Rightarrow> None
      | (queue_entry, matched_user) # rest \<Rightarrow>
          (let (match_min_age, match_max_age) = get_age_range (age matched_user) in
           if match_min_age \<le> age usr \<and> age usr \<le> match_max_age
           then Some matched_user
           else None))"

subsection \<open>create_chat\<close>

definition create_chat :: "time \<Rightarrow> db \<Rightarrow> user \<Rightarrow> user \<Rightarrow> string \<Rightarrow> string \<Rightarrow> chat \<times> db" where
  "create_chat now s user1 user2 r1 problem =
     (let r2 = (if r1 = ''support'' then ''receive_support'' else ''support'');
          new_chat = \<lparr>c_id = next_id (map c_id (chats s)),
                      user1_id = u_id user1, user2_id = u_id user2,
                      role1 = r1, role2 = r2, c_problem_type = problem,
                      created_at = now, is_active = True, ended_at = None\<rparr>;
          s1 = s\<lparr>chats := chats s @ [new_chat]\<rparr>;
          s2 = upd_user (u_id user1) (\<lambda>u. u\<lparr>current_chat_id := Some (c_id new_chat)\<rparr>) s1;
          s3 = upd_user (u_id user2) (\<lambda>u. u\<lparr>current_chat_id := Some (c_id new_chat)\<rparr>) s2
      in (new_chat, s3))"

section \<open>Message relay (bot.py, handle_message)\<close>

text \<open>
  \<^verbatim>\<open>check_profanity\<close> comes from a module that is not part of the sources; it is a
  parameter. \<open>tg\<close> is \<^verbatim>\<open>update.effective_user.id\<close>, \<open>now\<close> the one clock reading
  of the handler (line 400).
\<close>

definition handle_message ::
    "(string \<Rightarrow> bool) \<Rightarrow> time \<Rightarrow> int \<Rightarrow> string \<Rightarrow> db \<Rightarrow> outcome" where
  "handle_message check_profanity now tg message_text s =
     (case scalar_one_or_none (filter (\<lambda>u. telegram_id u = tg) (users s)) of
        Inl e \<Rightarrow> Raised e s []
      | Inr None \<Rightarrow> Done s [Reply_text Start_first]
      | Inr (Some usr) \<Rightarrow>
          if is_banned usr then Done s [Reply_text Blocked]
          else if check_profanity message_text then
            Done (upd_user (u_id usr) (\<lambda>u. u\<lparr>is_banned := True\<rparr>) s) [Reply_text Permanent_ban]
          else
            (case truthy_ref (current_chat_id usr) of
               None \<Rightarrow> Done s [Reply_text No_chat_use_start]
             | Some chat_id \<Rightarrow>
                 (case scalar_one_or_none (filter (\<lambda>c. c_id c = chat_id) (chats s)) of
                    Inl e \<Rightarrow> Raised e s []
                  | Inr None \<Rightarrow> Done s [Reply_text Chat_not_active]
                  | Inr (Some cht) \<Rightarrow>
                      if \<not> is_active cht then Done s [Reply_text Chat_not_active]
                      else
                        (let partner_id = (if user1_id cht = u_id usr then user2_id cht
                                           else user1_id cht) in
                         case scalar_one_or_none (filter (\<lambda>u. u_id u = partner_id) (users s)) of
                           Inl e \<Rightarrow> Raised e s []
                         | Inr None \<Rightarrow> Done s [Reply_text Partner_not_found]
                         | Inr (Some partner) \<Rightarrow>
                             Done (s\<lparr>messages := messages s @
                                       [\<lparr>m_id = next_id (map m_id (messages s)),
                                         m_chat_id = c_id cht, m_user_id = u_id usr,
                                         m_text = message_text, sent_at = now\<rparr>]\<rparr>)
                                  [Send_message (telegram_id partner) (Verbatim message_text)]))))"

section \<open>Menu router (bot.py, handle_callback)\<close>

subsection \<open>The find-partner branch (lines 457-503)\<close>

definition menu_problem :: "clock \<Rightarrow> db \<Rightarrow> user \<Rightarrow> string \<Rightarrow> outcome" where
  "menu_problem clk s usr data =
     (let parts = split_us data in
      case py_index parts 2 of
        Inl e \<Rightarrow> Raised e s []
      | Inr role \<Rightarrow>
          (let problem = join_us (drop 3 parts);
               s1 = upd_user (u_id usr)
                      (\<lambda>u. u\<lparr>current_role := Some role, current_problem := Some problem\<rparr>) s
           in case add_to_queue (clk 0) s1 usr role problem of
                Inl e \<Rightarrow> Raised e s1 []
              | Inr s2 \<Rightarrow>
                  (case find_match s2 usr role problem of
                     Some mtch \<Rightarrow>
                       (let (new_chat, s3) = create_chat (clk 1) s2 usr mtch role problem;
                            s4 = remove_from_queue (remove_from_queue s3 (u_id usr)) (u_id mtch)
                        in Done s4
                             [Edit_message_text Searching,
                              Send_message (telegram_id usr) (Partner_found (age mtch) (age usr)),
                              Send_message (telegram_id mtch) (Partner_found (age usr) (age mtch))])
                   | None \<Rightarrow>
                       Done s2 [Edit_message_text Searching,
                                Send_message (telegram_id usr) Queued])))"

subsection \<open>The end-chat branch (lines 508-616)\<close>

text \<open>
  \<^verbatim>\<open>session\<close> is an \<^verbatim>\<open>AsyncSession\<close> (\<^verbatim>\<open>database.py\<close>:
  \<^verbatim>\<open>async_sessionmaker(engine, class_=AsyncSession, ...)\<close>), whose \<^verbatim>\<open>delete\<close> is a
  coroutine function. Lines 562 and 598 call \<^verbatim>\<open>session.delete(old_entry)\<close> with no
  \<^verbatim>\<open>await\<close> (unlike every \<^verbatim>\<open>await session.execute(...)\<close> and
  \<^verbatim>\<open>await session.commit()\<close> around them): the call builds a coroutine object that
  is never run, so no row is marked for deletion.
\<close>

definition session_delete_not_awaited :: "chat_history \<Rightarrow> db \<Rightarrow> db" where
  "session_delete_not_awaited old_entry s = s"

text \<open>
  The history block, which the source writes out twice: for the user who ends
  the chat (lines 541-572) and for the partner (lines 576-608).
\<close>

definition record_history :: "time \<Rightarrow> int \<Rightarrow> int \<Rightarrow> db \<Rightarrow> error + db" where
  "record_history now uid cid s =
     (case scalar_one_or_none
             (filter (\<lambda>h. h_user_id h = uid \<and> h_chat_id h = cid) (history s)) of
        Inl e \<Rightarrow> Inl e
      | Inr (Some existing_entry) \<Rightarrow>
          Inr (s\<lparr>history := map (\<lambda>h. if h_id h = h_id existing_entry
                                      then h\<lparr>viewed_at := now\<rparr> else h) (history s)\<rparr>)
      | Inr None \<Rightarrow>
          (let user_history_count = int (length (filter (\<lambda>h. h_user_id h = uid) (history s)));
               s1 = (if user_history_count \<ge> 3 then
                       (case take 1 (sort_key viewed_at
                                       (filter (\<lambda>h. h_user_id h = uid) (history s))) of
                          old_entry # rest \<Rightarrow> session_delete_not_awaited old_entry s
                        | [] \<Rightarrow> s)
                     else s)
           in Inr (s1\<lparr>history := history s1 @
                        [\<lparr>h_id = next_id (map h_id (history s1)), h_user_id = uid,
                          h_chat_id = cid, viewed_at = now\<rparr>]\<rparr>)))"

definition end_chat :: "clock \<Rightarrow> db \<Rightarrow> user \<Rightarrow> outcome" where
  "end_chat clk s usr =
     (case truthy_ref (current_chat_id usr) of
        None \<Rightarrow> Done s [Edit_message_text No_current_chat]
      | Some chat_id \<Rightarrow>
          (case scalar_one_or_none (filter (\<lambda>c. c_id c = chat_id) (chats s)) of
             Inl e \<Rightarrow> Raised e s []
           | Inr None \<Rightarrow> Done s [Edit_message_text Chat_not_found]
           | Inr (Some cht) \<Rightarrow>
               (let s1 = upd_chat (c_id cht)
                           (\<lambda>c. c\<lparr>is_active := False, ended_at := Some (clk 0)\<rparr>) s;
                    partner_id = (if user1_id cht = u_id usr then user2_id cht else user1_id cht)
                in case scalar_one_or_none (filter (\<lambda>u. u_id u = partner_id) (users s1)) of
                     Inl e \<Rightarrow> Raised e s []
                   | Inr partner \<Rightarrow>
                       (let s2 = (case partner of
                                    Some p \<Rightarrow> upd_user (u_id p) (\<lambda>u. u\<lparr>current_chat_id := None\<rparr>) s1
                                  | None \<Rightarrow> s1);
                            notified = (case partner of
                                    Some p \<Rightarrow> [Send_message (telegram_id p) Partner_ended_chat]
                                  | None \<Rightarrow> []);
                            s3 = upd_user (u_id usr) (\<lambda>u. u\<lparr>current_chat_id := None\<rparr>) s2
                        in case record_history (clk 1) (u_id usr) (c_id cht) s3 of
                             Inl e \<Rightarrow> Raised e s notified
                           | Inr s4 \<Rightarrow>
                               (case partner of
                                  None \<Rightarrow> Done s4 (notified @ [Edit_message_text Chat_ended])
                                | Some p \<Rightarrow>
                                    (case record_history (clk 2) (u_id p) (c_id cht) s4 of
                                       Inl e \<Rightarrow> Raised e s notified
                                     | Inr s5 \<Rightarrow>
                                         Done s5 (notified @ [Edit_message_text Chat_ended])))))))"

subsection \<open>show_chat_history, view_chat_history, show_main_menu\<close>

fun history_buttons ::
    "db \<Rightarrow> user \<Rightarrow> nat \<Rightarrow> (chat_history \<times> chat) list \<Rightarrow> error + (nat \<times> int \<times> string) list" where
  "history_buttons s usr i [] = Inr []"
| "history_buttons s usr i ((history_entry, cht) # rest) =
     (let partner_id = (if user1_id cht = u_id usr then user2_id cht else user1_id cht) in
      case scalar_one_or_none (filter (\<lambda>u. u_id u = partner_id) (users s)) of
        Inl e \<Rightarrow> Inl e
      | Inr partner \<Rightarrow>
          (case history_buttons s usr (Suc i) rest of
             Inl e \<Rightarrow> Inl e
           | Inr buttons \<Rightarrow>
               Inr ((case partner of
                       Some p \<Rightarrow> [(i, age p, ''view_chat_'' @ py_str (c_id cht))]
                     | None \<Rightarrow> []) @ buttons)))"

definition show_chat_history :: "db \<Rightarrow> user \<Rightarrow> outcome" where
  "show_chat_history s usr =
     (let history_entries =
            take 3 (sort_key (\<lambda>(h, c). - viewed_at h)
              (concat (map (\<lambda>h. map (\<lambda>c. (h, c)) (filter (\<lambda>c. h_chat_id h = c_id c) (chats s)))
                           (filter (\<lambda>h. h_user_id h = u_id usr) (history s)))))
      in if history_entries = [] then Done s [Edit_message_text History_empty]
         else (case history_buttons s usr 1 history_entries of
                 Inl e \<Rightarrow> Raised e s []
               | Inr buttons \<Rightarrow> Done s [Edit_message_text (History_list buttons)]))"

definition view_chat_history :: "db \<Rightarrow> user \<Rightarrow> int \<Rightarrow> outcome" where
  "view_chat_history s usr chat_id =
     (if \<not> sqlite_integer chat_id then Raised OverflowError s []
      else
      case scalar_one_or_none (filter (\<lambda>c. c_id c = chat_id) (chats s)) of
        Inl e \<Rightarrow> Raised e s []
      | Inr None \<Rightarrow> Done s [Edit_message_text Chat_not_found]
      | Inr (Some cht) \<Rightarrow>
          (let msgs = sort_key sent_at (filter (\<lambda>m. m_chat_id m = chat_id) (messages s)) in
           if msgs = [] then Done s [Edit_message_text No_messages]
           else Done s [Edit_message_text (Transcript
                  (map (\<lambda>m. (if m_user_id m = u_id usr then You else Interlocutor,
                              m_text m, sent_at m)) msgs))]))"

definition show_main_menu :: "db \<Rightarrow> user \<Rightarrow> outcome" where
  "show_main_menu s usr = Done s [Edit_message_text (Main_menu (truthy_ref (current_chat_id usr) \<noteq> None))]"

subsection \<open>The router\<close>

definition handle_callback :: "clock \<Rightarrow> int \<Rightarrow> string \<Rightarrow> db \<Rightarrow> outcome" where
  "handle_callback clk tg data s =
     (case scalar_one_or_none (filter (\<lambda>u. telegram_id u = tg) (users s)) of
        Inl e \<Rightarrow> Raised e s []
      | Inr None \<Rightarrow> Done s [Edit_message_text Access_denied]
      | Inr (Some usr) \<Rightarrow>
          if is_banned usr then Done s [Edit_message_text Access_denied]
          else if data = ''find_match'' then Done s [Edit_message_text Choose_role]
          else if startswith data ''menu_role_'' then
            (case py_index (split_us data) 2 of
               Inl e \<Rightarrow> Raised e s []
             | Inr role \<Rightarrow> Done s [Edit_message_text (Choose_problem role)])
          else if startswith data ''menu_problem_'' then menu_problem clk s usr data
          else if data = ''chat_history'' then show_chat_history s usr
          else if data = ''end_chat'' then end_chat clk s usr
          else if startswith data ''view_chat_'' then
            (case py_index (split_us data) 2 of
               Inl e \<Rightarrow> Raised e s []
             | Inr piece \<Rightarrow>
                 (case py_int piece of
                    Inl e \<Rightarrow> Raised e s []
                  | Inr chat_id \<Rightarrow> view_chat_history s usr chat_id))
          else if data = ''back_to_menu'' then show_main_menu s usr
          else Done s [])"

section \<open>Periodic sweep (bot.py, periodic_matchmaking_task)\<close>

text \<open>
  The state of one run: the database (every change of the loop is committed at
  once), the set \<^verbatim>\<open>processed_users\<close>, the number of clock readings so far, and
  the notifications sent.
\<close>

record sweep =
  sw_db :: db
  processed_users :: "int set"
  sw_ticks :: nat
  sw_sent :: "outbound list"

definition sweep_step :: "clock \<Rightarrow> queue_entry \<Rightarrow> sweep \<Rightarrow> error + sweep" where
  "sweep_step clk queue_entry w =
     (if q_user_id queue_entry \<in> processed_users w then Inr w
      else
        (case scalar_one_or_none
                (filter (\<lambda>u. u_id u = q_user_id queue_entry) (users (sw_db w))) of
           Inl e \<Rightarrow> Inl e
         | Inr None \<Rightarrow> Inr (w\<lparr>sw_db := remove_from_queue (sw_db w) (q_user_id queue_entry)\<rparr>)
         | Inr (Some usr) \<Rightarrow>
             if is_banned usr \<or> truthy_ref (current_chat_id usr) \<noteq> None then
               Inr (w\<lparr>sw_db := remove_from_queue (sw_db w) (q_user_id queue_entry)\<rparr>)
             else
               (case find_match (sw_db w) usr (q_role queue_entry) (q_problem_type queue_entry) of
                  None \<Rightarrow> Inr (w\<lparr>processed_users := insert (u_id usr) (processed_users w)\<rparr>)
                | Some mtch \<Rightarrow>
                    (case scalar_one_or_none
                            (filter (\<lambda>u. u_id u = u_id mtch) (users (sw_db w))) of
                       Inl e \<Rightarrow> Inl e
                     | Inr None \<Rightarrow>
                         Inr (w\<lparr>processed_users := insert (u_id usr) (processed_users w)\<rparr>)
                     | Inr (Some match_user) \<Rightarrow>
                         if truthy_ref (current_chat_id match_user) \<noteq> None then
                           Inr (w\<lparr>processed_users := insert (u_id usr) (processed_users w)\<rparr>)
                         else
                           (let (new_chat, s1) =
                                  create_chat (clk (sw_ticks w)) (sw_db w) usr match_user
                                    (q_role queue_entry) (q_problem_type queue_entry);
                                s2 = remove_from_queue (remove_from_queue s1 (u_id usr))
                                       (u_id match_user)
                            in Inr \<lparr>sw_db = s2,
                                    processed_users =
                                      insert (u_id usr)
                                        (insert (u_id match_user) (processed_users w)),
                                    sw_ticks = Suc (sw_ticks w),
                                    sw_sent = sw_sent w @
                                      [Send_message (telegram_id usr)
                                         (Partner_found (age match_user) (age usr)),
                                       Send_message (telegram_id match_user)
                                         (Partner_found (age usr) (age match_user))]\<rparr>)))))"

text \<open>
  The loop over the entries loaded at the start of the run. An exception leaves
  the loop; the \<^verbatim>\<open>except\<close> clause around the run logs it.
\<close>

fun sweep_loop :: "clock \<Rightarrow> queue_entry list \<Rightarrow> sweep \<Rightarrow> error option \<times> sweep" where
  "sweep_loop clk [] w = (None, w)"
| "sweep_loop clk (queue_entry # rest) w =
     (case sweep_step clk queue_entry w of
        Inl e \<Rightarrow> (Some e, w)
      | Inr w' \<Rightarrow> sweep_loop clk rest w')"

text \<open>
  One run: the database and the notifications it leaves, and the exception it
  logged, if any. No exception leaves the task.
\<close>

definition periodic_matchmaking_task :: "clock \<Rightarrow> db \<Rightarrow> db \<times> outbound list \<times> error option" where
  "periodic_matchmaking_task clk s =
     (let (logged, w) = sweep_loop clk (queue_entries s)
                          \<lparr>sw_db = s, processed_users = {}, sw_ticks = 0, sw_sent = []\<rparr>
      in (sw_db w, sw_sent w, logged))"

section \<open>Vocabulary of the properties\<close>

text \<open>
  What the schema of \<^verbatim>\<open>database.py\<close> and SQLite guarantee of every stored
  state: primary keys are unique, \<^verbatim>\<open>users.telegram_id\<close> and
  \<^verbatim>\<open>queue_entries.user_id\<close> are declared unique, and the chat ids, which SQLite
  hands out from 1 upwards, are positive.
\<close>

definition schema_ok :: "db \<Rightarrow> bool" where
  "schema_ok s \<longleftrightarrow>
     distinct (map u_id (users s)) \<and> distinct (map telegram_id (users s)) \<and>
     distinct (map c_id (chats s)) \<and> (\<forall>c\<in>set (chats s). 0 < c_id c) \<and>
     distinct (map m_id (messages s)) \<and> distinct (map h_id (history s)) \<and>
     distinct (map q_id (queue_entries s)) \<and> distinct (map q_user_id (queue_entries s))"

text \<open>
  What the handlers keep true of the stored state beyond the schema: the two
  participants of a chat are distinct stored users, a current-chat reference
  names a stored chat in which the user takes part, and the history holds no
  pair of user and chat twice.
\<close>

definition consistent :: "db \<Rightarrow> bool" where
  "consistent s \<longleftrightarrow>
     (\<forall>c\<in>set (chats s). user1_id c \<noteq> user2_id c \<and>
        user1_id c \<in> u_id ` set (users s) \<and> user2_id c \<in> u_id ` set (users s)) \<and>
     (\<forall>u\<in>set (users s).
        case current_chat_id u of
          None \<Rightarrow> True
        | Some cid \<Rightarrow>
            \<exists>c\<in>set (chats s). c_id c = cid \<and> (user1_id c = u_id u \<or> user2_id c = u_id u)) \<and>
     distinct (map (\<lambda>h. (h_user_id h, h_chat_id h)) (history s))"

definition sound :: "db \<Rightarrow> bool" where
  "sound s \<longleftrightarrow> schema_ok s \<and> consistent s"

text \<open>The participant of a chat that is not the given user (lines 386-389, 518-521).\<close>

definition other_participant :: "chat \<Rightarrow> int \<Rightarrow> int" where
  "other_participant cht uid = (if user1_id cht = uid then user2_id cht else user1_id cht)"

text \<open>
  The claims' words for the match search: an age lies in the band of another
  age; a queue entry with its entrant is a candidate for a requester who
  looks for entries of the role \<open>wanted\<close>.
\<close>

definition in_band :: "int \<Rightarrow> int \<Rightarrow> bool" where
  "in_band a b \<longleftrightarrow> fst (get_age_range b) \<le> a \<and> a \<le> snd (get_age_range b)"

definition candidate :: "db \<Rightarrow> user \<Rightarrow> string \<Rightarrow> string \<Rightarrow> queue_entry \<Rightarrow> user \<Rightarrow> bool" where
  "candidate s usr wanted problem q u \<longleftrightarrow>
     q \<in> set (queue_entries s) \<and> u \<in> set (users s) \<and> q_user_id q = u_id u \<and>
     u_id u \<noteq> u_id usr \<and> q_role q = wanted \<and> q_problem_type q = problem \<and>
     in_band (age u) (age usr) \<and> \<not> is_banned u \<and> current_chat_id u = None"

text \<open>
  The roles in the spec's words, to compare \<^verbatim>\<open>find_match\<close> with: a role is
  either \<^verbatim>\<open>support\<close> or \<^verbatim>\<open>receive_support\<close>, and each of the two is the opposite
  of the other.
\<close>

datatype spec_role = Support | Receive_support

fun spec_role_name :: "spec_role \<Rightarrow> string" where
  "spec_role_name Support = ''support''"
| "spec_role_name Receive_support = ''receive_support''"

fun spec_opposite_role :: "spec_role \<Rightarrow> spec_role" where
  "spec_opposite_role Support = Receive_support"
| "spec_opposite_role Receive_support = Support"

text \<open>
  The claims' words for the sweep: the user of an id is missing, banned, or
  already has a current chat. The second predicate says what a sweep that has
  got to the state \<open>w\<close> from the database \<open>s\<close> has left alone of the user
  with id \<open>x\<close>: the user's row, the set of processed users, and the new chats.
\<close>

definition stale :: "db \<Rightarrow> int \<Rightarrow> bool" where
  "stale s uid \<longleftrightarrow>
     (\<forall>u\<in>set (users s). u_id u = uid \<longrightarrow> is_banned u \<or> current_chat_id u \<noteq> None)"

definition passed_over :: "db \<Rightarrow> int \<Rightarrow> sweep \<Rightarrow> bool" where
  "passed_over s x w \<longleftrightarrow>
     distinct (map u_id (users (sw_db w))) \<and>
     filter (\<lambda>u. u_id u = x) (users (sw_db w)) = filter (\<lambda>u. u_id u = x) (users s) \<and>
     x \<notin> processed_users w \<and>
     (\<forall>c\<in>set (chats (sw_db w)). c \<in> set (chats s) \<or> (user1_id c \<noteq> x \<and> user2_id c \<noteq> x)) \<and>
     set (queue_entries (sw_db w)) \<subseteq> set (queue_entries s)"

subsection \<open>Concrete states\<close>

definition mk_user :: "int \<Rightarrow> int \<Rightarrow> int \<Rightarrow> bool \<Rightarrow> int option \<Rightarrow> user" where
  "mk_user i tg a b c =
     \<lparr>u_id = i, telegram_id = tg, age = a, is_banned = b, registered_at = 0,
      current_chat_id = c, current_role = None, current_problem = None\<rparr>"

definition mk_chat :: "int \<Rightarrow> int \<Rightarrow> int \<Rightarrow> bool \<Rightarrow> chat" where
  "mk_chat i a b act =
     \<lparr>c_id = i, user1_id = a, user2_id = b, role1 = ''receive'', role2 = ''support'',
      c_problem_type = ''study'', created_at = 0, is_active = act, ended_at = None\<rparr>"

definition paired_db :: db where
  "paired_db =
     \<lparr>users = [mk_user 1 101 16 False (Some 1), mk_user 2 102 17 False (Some 1),
               mk_user 3 103 15 True None, mk_user 4 104 18 False (Some 7)],
      chats = [mk_chat 1 1 2 True], messages = [], history = [], queue_entries = []\<rparr>"

definition mk_entry :: "int \<Rightarrow> int \<Rightarrow> string \<Rightarrow> string \<Rightarrow> int \<Rightarrow> time \<Rightarrow> queue_entry" where
  "mk_entry i uid r p a t =
     \<lparr>q_id = i, q_user_id = uid, q_role = r, q_problem_type = p, q_age = a, joined_at = t\<rparr>"

definition waiting_db :: db where
  "waiting_db =
     \<lparr>users = [mk_user 1 101 16 False None, mk_user 2 102 17 False None,
               mk_user 3 103 18 False None],
      chats = [], messages = [], history = [],
      queue_entries = [mk_entry 1 2 ''support'' ''study'' 17 5]\<rparr>"

definition fifo_db :: db where
  "fifo_db =
     \<lparr>users = [mk_user 1 101 16 False None, mk_user 2 102 17 False None,
               mk_user 3 103 18 False None],
      chats = [], messages = [], history = [],
      queue_entries = [mk_entry 1 2 ''support'' ''study'' 17 5,
                       mk_entry 2 3 ''support'' ''study'' 18 3]\<rparr>"

definition mk_message :: "int \<Rightarrow> int \<Rightarrow> int \<Rightarrow> string \<Rightarrow> time \<Rightarrow> message" where
  "mk_message i cid uid txt t =
     \<lparr>m_id = i, m_chat_id = cid, m_user_id = uid, m_text = txt, sent_at = t\<rparr>"

definition talked_db :: db where
  "talked_db =
     \<lparr>users = [mk_user 1 101 16 False (Some 1), mk_user 2 102 17 False (Some 1),
               mk_user 4 104 18 False None],
      chats = [mk_chat 1 1 2 True],
      messages = [mk_message 1 1 1 ''hi'' 30, mk_message 2 1 2 ''hello'' 31],
      history = [], queue_entries = []\<rparr>"

definition tick :: "time \<Rightarrow> clock" where
  "tick t = (\<lambda>k. t + int k)"

definition registered_db :: db where
  "registered_db =
     \<lparr>users = [mk_user 1 101 16 False None, mk_user 2 102 17 False None,
               mk_user 3 103 18 False None],
      chats = [], messages = [], history = [], queue_entries = []\<rparr>"

definition chose :: "string \<Rightarrow> string \<Rightarrow> user \<Rightarrow> user" where
  "chose r p u = u\<lparr>current_role := Some r, current_problem := Some p\<rparr>"

text \<open>
  User 1 still refers to chat 1 with user 2; user 2 has meanwhile been matched
  with user 3 in chat 2, which user 3 ended, and waits in the queue again.
\<close>

definition rematch_db :: db where
  "rematch_db =
     \<lparr>users = [chose ''receive'' ''study'' (mk_user 1 101 16 False (Some 1)),
               chose ''support'' ''study'' (mk_user 2 102 17 False None),
               chose ''support'' ''study'' (mk_user 3 103 18 False None)],
      chats = [(mk_chat 1 1 2 True)\<lparr>created_at := 21\<rparr>,
               (mk_chat 2 2 3 False)\<lparr>created_at := 41, ended_at := Some 50\<rparr>],
      messages = [],
      history = [\<lparr>h_id = 1, h_user_id = 3, h_chat_id = 2, viewed_at = 51\<rparr>,
                 \<lparr>h_id = 2, h_user_id = 2, h_chat_id = 2, viewed_at = 52\<rparr>],
      queue_entries = [mk_entry 1 2 ''support'' ''study'' 17 60]\<rparr>"

text \<open>Users 1 and 2 are in chat 1; user 3 waits in the queue as a supporter.\<close>

definition busy_db :: db where
  "busy_db =
     \<lparr>users = [mk_user 1 101 16 False (Some 1), mk_user 2 102 17 False (Some 1),
               mk_user 3 103 18 False None],
      chats = [mk_chat 1 1 2 True], messages = [], history = [],
      queue_entries = [mk_entry 1 3 ''support'' ''study'' 18 5]\<rparr>"

text \<open>\<open>busy_db\<close> after user 1 has sent a profane message.\<close>

definition banned_db :: db where
  "banned_db =
     \<lparr>users = [mk_user 1 101 16 True (Some 1), mk_user 2 102 17 False (Some 1),
               mk_user 3 103 18 False None],
      chats = [mk_chat 1 1 2 True], messages = [], history = [],
      queue_entries = [mk_entry 1 3 ''support'' ''study'' 18 5]\<rparr>"

text \<open>
  Users 1 and 2 have ended three chats with each other, so each has three
  history rows, and are in a fourth chat.
\<close>

definition mk_history :: "int \<Rightarrow> int \<Rightarrow> int \<Rightarrow> time \<Rightarrow> chat_history" where
  "mk_history i uid cid t = \<lparr>h_id = i, h_user_id = uid, h_chat_id = cid, viewed_at = t\<rparr>"

definition veteran_db :: db where
  "veteran_db =
     \<lparr>users = [mk_user 1 101 16 False (Some 4), mk_user 2 102 17 False (Some 4)],
      chats = [(mk_chat 1 1 2 False)\<lparr>ended_at := Some 10\<rparr>,
               (mk_chat 2 1 2 False)\<lparr>ended_at := Some 20\<rparr>,
               (mk_chat 3 1 2 False)\<lparr>ended_at := Some 30\<rparr>,
               mk_chat 4 1 2 True],
      messages = [],
      history = [mk_history 1 1 1 11, mk_history 2 2 1 12, mk_history 3 1 2 21,
                 mk_history 4 2 2 22, mk_history 5 1 3 31, mk_history 6 2 3 32],
      queue_entries = []\<rparr>"

text \<open>
  A queue with three stale entries (user 2 is banned, user 3 is in chat 1 with
  user 4, user 9 does not exist) and the entry of user 1, who waits.
\<close>

definition stale_queue_db :: db where
  "stale_queue_db =
     \<lparr>users = [mk_user 1 101 16 False None, mk_user 2 102 17 True None,
               mk_user 3 103 18 False (Some 1), mk_user 4 104 18 False (Some 1)],
      chats = [mk_chat 1 3 4 True], messages = [], history = [],
      queue_entries = [mk_entry 1 2 ''support'' ''study'' 17 5,
                       mk_entry 2 3 ''support'' ''study'' 18 6,
                       mk_entry 3 9 ''support'' ''study'' 15 7,
                       mk_entry 4 1 ''support'' ''study'' 16 8]\<rparr>"

section \<open>Supporting lemmas\<close>

subsection \<open>Looking rows up by a unique column\<close>

lemma filter_key_unique:
  "distinct (map f xs) \<Longrightarrow> x \<in> set xs \<Longrightarrow> filter (\<lambda>y. f y = f x) xs = [x]"
proof (induction xs)
  case Nil
  then show ?case by simp
next
  case (Cons a xs)
  show ?case
  proof (cases "a = x")
    case True
    with Cons.prems have "\<forall>y\<in>set xs. f y \<noteq> f x" by (auto simp: image_iff)
    then have "filter (\<lambda>y. f y = f x) xs = []" by (simp add: filter_empty_conv)
    with True show ?thesis by simp
  next
    case False
    with Cons.prems have "x \<in> set xs" and "f a \<noteq> f x" by auto
    with Cons show ?thesis by simp
  qed
qed

lemma filter_key_absent:
  "k \<notin> f ` set xs \<Longrightarrow> filter (\<lambda>y. f y = k) xs = []"
  by (auto simp: filter_empty_conv)

lemma filter_key_cases:
  assumes "distinct (map f xs)"
  shows "filter (\<lambda>y. f y = k) xs = [] \<or> (\<exists>x\<in>set xs. f x = k \<and> filter (\<lambda>y. f y = k) xs = [x])"
proof (cases "k \<in> f ` set xs")
  case True
  then obtain x where "x \<in> set xs" "f x = k" by auto
  with filter_key_unique[OF assms, of x] show ?thesis by auto
next
  case False
  then show ?thesis by (simp add: filter_key_absent)
qed

lemma users_upd_user:
  "users (upd_user uid g s) = map (\<lambda>u. if u_id u = uid then g u else u) (users s)"
  by (simp add: upd_user_def)

lemma lookup_after_ban:
  assumes "filter (\<lambda>u. telegram_id u = tg) (users s) = [usr]"
  shows "filter (\<lambda>u. telegram_id u = tg)
           (users (upd_user (u_id usr) (\<lambda>u. u\<lparr>is_banned := True\<rparr>) s)) = [usr\<lparr>is_banned := True\<rparr>]"
proof -
  have "filter (\<lambda>u. telegram_id u = tg)
          (map (\<lambda>u. if u_id u = u_id usr then u\<lparr>is_banned := True\<rparr> else u) (users s))
        = map (\<lambda>u. if u_id u = u_id usr then u\<lparr>is_banned := True\<rparr> else u)
            (filter (\<lambda>u. telegram_id u = tg) (users s))"
    by (simp add: filter_map comp_def if_distrib cong: if_cong)
  then show ?thesis using assms by (simp add: users_upd_user)
qed


lemma lookup_by_telegram_id:
  "schema_ok s \<Longrightarrow> usr \<in> set (users s) \<Longrightarrow>
   filter (\<lambda>u. telegram_id u = telegram_id usr) (users s) = [usr]"
  by (simp add: schema_ok_def filter_key_unique)

lemma lookup_by_u_id:
  "schema_ok s \<Longrightarrow> usr \<in> set (users s) \<Longrightarrow>
   filter (\<lambda>u. u_id u = u_id usr) (users s) = [usr]"
  by (simp add: schema_ok_def filter_key_unique)

lemma lookup_by_c_id:
  "schema_ok s \<Longrightarrow> cht \<in> set (chats s) \<Longrightarrow>
   filter (\<lambda>c. c_id c = c_id cht) (chats s) = [cht]"
  by (simp add: schema_ok_def filter_key_unique)


subsection \<open>The concrete states\<close>

lemmas fixture_defs = mk_user_def mk_chat_def mk_entry_def chose_def tick_def
lemmas callback_defs = handle_callback_def menu_problem_def end_chat_def record_history_def
  session_delete_not_awaited_def add_to_queue_def remove_from_queue_def find_match_def
  match_query_def create_chat_def upd_user_def upd_chat_def opposite_role_def get_age_range_def
  startswith_def py_index_def truthy_ref_def next_id_def Let_def

lemma schema_ok_paired_db: "schema_ok paired_db"
  by (simp add: schema_ok_def paired_db_def mk_user_def mk_chat_def)

lemma schema_ok_waiting_db: "schema_ok waiting_db"
  by (simp add: schema_ok_def waiting_db_def mk_user_def mk_entry_def)

lemma schema_ok_talked_db: "schema_ok talked_db"
  by (simp add: schema_ok_def talked_db_def mk_user_def mk_chat_def mk_message_def)

lemma schema_ok_busy_db: "schema_ok busy_db"
  by (simp add: schema_ok_def busy_db_def mk_user_def mk_chat_def mk_entry_def)

lemma schema_ok_registered_db: "schema_ok registered_db"
  by (simp add: schema_ok_def registered_db_def mk_user_def)

lemma schema_ok_stale_queue_db: "schema_ok stale_queue_db"
  by (simp add: schema_ok_def stale_queue_db_def mk_user_def mk_chat_def mk_entry_def)

subsection \<open>Fresh ids, updates in place, the queue\<close>

lemma next_id_greater: "x \<in> set ids \<Longrightarrow> x < next_id ids"
  unfolding next_id_def by (induction ids) auto

lemma next_id_fresh: "next_id ids \<notin> set ids"
  using next_id_greater by blast

lemma next_id_positive: "0 < next_id ids"
  unfolding next_id_def by (induction ids) auto

lemma filter_map_key_preserved:
  assumes "\<And>x. k (g x) = k x"
  shows "filter (\<lambda>x. k x = v) (map g xs) = map g (filter (\<lambda>x. k x = v) xs)"
  using assms by (induction xs) auto

lemma map_key_preserved:
  assumes "\<And>x. k (g x) = k x"
  shows "map k (map g xs) = map k xs"
  using assms by (induction xs) auto

lemma filter_map_fixed:
  assumes "\<And>x. x \<in> set xs \<Longrightarrow> P x \<Longrightarrow> g x = x" and "\<And>x. P (g x) = P x"
  shows "filter P (map g xs) = filter P xs"
  using assms by (induction xs) auto

lemma add_to_queue_step:
  assumes dq: "distinct (map q_id (queue_entries s))"
      and du: "distinct (map q_user_id (queue_entries s))"
  shows "\<exists>s' e. add_to_queue now s usr role problem = Inr s' \<and>
           filter (\<lambda>q. q_user_id q = u_id usr) (queue_entries s') = [e] \<and>
           q_role e = role \<and> q_problem_type e = problem \<and> q_age e = age usr \<and> joined_at e = now \<and>
           distinct (map q_id (queue_entries s')) \<and> distinct (map q_user_id (queue_entries s')) \<and>
           length (queue_entries s') =
             (if u_id usr \<in> q_user_id ` set (queue_entries s) then length (queue_entries s)
              else Suc (length (queue_entries s))) \<and>
           filter (\<lambda>q. q_user_id q \<noteq> u_id usr) (queue_entries s') =
             filter (\<lambda>q. q_user_id q \<noteq> u_id usr) (queue_entries s) \<and>
           users s' = users s \<and> chats s' = chats s \<and> messages s' = messages s \<and>
           history s' = history s"
proof -
  let ?uid = "u_id usr"
  let ?qs = "queue_entries s"
  from filter_key_cases[OF du, of ?uid]
  consider (absent) "filter (\<lambda>q. q_user_id q = ?uid) ?qs = []"
    | (present) x where "x \<in> set ?qs" "q_user_id x = ?uid"
        "filter (\<lambda>q. q_user_id q = ?uid) ?qs = [x]"
    by blast
  then show ?thesis
  proof cases
    case absent
    let ?n = "\<lparr>q_id = next_id (map q_id ?qs), q_user_id = ?uid, q_role = role,
               q_problem_type = problem, q_age = age usr, joined_at = now\<rparr>"
    have run: "add_to_queue now s usr role problem = Inr (s\<lparr>queue_entries := ?qs @ [?n]\<rparr>)"
      by (simp add: add_to_queue_def absent)
    have notin': "\<forall>q\<in>set ?qs. q_user_id q \<noteq> ?uid"
      using absent by (simp add: filter_empty_conv)
    then have notin: "?uid \<notin> q_user_id ` set ?qs"
      by (auto simp: image_iff)
    have same: "filter (\<lambda>q. q_user_id q \<noteq> ?uid) ?qs = ?qs"
      using notin' by (simp add: filter_id_conv)
    show ?thesis
      using run absent notin same dq du next_id_fresh[of "map q_id ?qs"]
      by simp
  next
    case present
    let ?g = "\<lambda>q. if q_id q = q_id x
                   then q\<lparr>q_role := role, q_problem_type := problem, q_age := age usr,
                          joined_at := now\<rparr>
                   else q"
    have run: "add_to_queue now s usr role problem = Inr (s\<lparr>queue_entries := map ?g ?qs\<rparr>)"
      by (simp add: add_to_queue_def present(3))
    have "map q_id (map ?g ?qs) = map q_id ?qs"
      by (rule map_key_preserved) simp
    with dq have ids: "distinct (map q_id (map ?g ?qs))"
      by (simp only:)
    have "map q_user_id (map ?g ?qs) = map q_user_id ?qs"
      by (rule map_key_preserved) simp
    with du have uids: "distinct (map q_user_id (map ?g ?qs))"
      by (simp only:)
    have f1: "filter (\<lambda>q. q_user_id q = ?uid) (map ?g ?qs) = [?g x]"
      using filter_map_key_preserved[of q_user_id ?g ?uid ?qs] present(3) by simp
    have others: "filter (\<lambda>q. q_user_id q \<noteq> ?uid) (map ?g ?qs) =
                  filter (\<lambda>q. q_user_id q \<noteq> ?uid) ?qs"
    proof -
      have "\<And>q. q \<in> set ?qs \<Longrightarrow> q_user_id q \<noteq> ?uid \<Longrightarrow> ?g q = q"
      proof -
        fix q assume q: "q \<in> set ?qs" "q_user_id q \<noteq> ?uid"
        then have "q \<noteq> x" using present(2) by auto
        then have "q_id q \<noteq> q_id x"
          using dq q(1) present(1) by (meson distinct_map inj_onD)
        then show "?g q = q" by simp
      qed
      then show ?thesis by (intro filter_map_fixed) auto
    qed
    have len: "?uid \<in> q_user_id ` set ?qs" using present(1,2) by force
    show ?thesis
      apply (rule exI[of _ "s\<lparr>queue_entries := map ?g ?qs\<rparr>"], rule exI[of _ "?g x"])
      using run f1 others len ids uids by simp
  qed
qed


lemma sorted_le_last:
  fixes xs :: "int list"
  shows "sorted xs \<Longrightarrow> x \<in> set xs \<Longrightarrow> x \<le> last xs"
  by (induction xs) auto

lemma last_sort_key_greatest:
  fixes f :: "'a \<Rightarrow> int"
  assumes "e \<in> set xs" and "\<And>x. x \<in> set xs \<Longrightarrow> x \<noteq> e \<Longrightarrow> f x < f e"
  shows "last (sort_key f xs) = e"
proof (rule ccontr)
  let ?ys = "sort_key f xs"
  assume ne: "last ?ys \<noteq> e"
  have nonempty: "?ys \<noteq> []" using assms(1) by (metis empty_iff set_empty set_sort)
  then have "last ?ys \<in> set xs" using last_in_set[of ?ys] by simp
  with ne have lt: "f (last ?ys) < f e" using assms(2) by blast
  have "f e \<in> set (map f ?ys)" using assms(1) by simp
  moreover have "sorted (map f ?ys)" by (rule sorted_sort_key)
  ultimately have "f e \<le> last (map f ?ys)" by (rule sorted_le_last[rotated])
  then have "f e \<le> f (last ?ys)" using nonempty by (simp add: last_map)
  with lt show False by simp
qed

subsection \<open>Bands and the match query\<close>

lemma band_within_limits: "in_band b a \<Longrightarrow> 14 \<le> b \<and> b \<le> 18"
  unfolding in_band_def get_age_range_def MIN_AGE_def MAX_AGE_def
  by (simp split: if_splits)

lemma in_band_of_age:
  "in_band a 14 \<longleftrightarrow> 14 \<le> a \<and> a \<le> 16"
  "in_band a 15 \<longleftrightarrow> 14 \<le> a \<and> a \<le> 17"
  "in_band a 16 \<longleftrightarrow> 14 \<le> a \<and> a \<le> 18"
  "in_band a 17 \<longleftrightarrow> 15 \<le> a \<and> a \<le> 18"
  "in_band a 18 \<longleftrightarrow> 16 \<le> a \<and> a \<le> 18"
  by (simp_all add: in_band_def get_age_range_def)

lemma in_band_other:
  "b < 14 \<or> 18 < b \<Longrightarrow> in_band a b \<longleftrightarrow> 14 \<le> a \<and> a \<le> 18"
  unfolding in_band_def get_age_range_def MIN_AGE_def MAX_AGE_def by auto

lemma band_symmetric:
  assumes "in_band b a"
  shows "in_band a b \<longleftrightarrow> 14 \<le> a \<and> a \<le> 18"
proof -
  from band_within_limits[OF assms]
  consider "b = 14" | "b = 15" | "b = 16" | "b = 17" | "b = 18" by arith
  then show ?thesis
  proof cases
    case 1
    consider "a = 14" | "a = 15" | "a = 16" | "a = 17" | "a = 18" | "a < 14 \<or> 18 < a" by arith
    then show ?thesis using assms 1 by cases (auto simp: in_band_of_age in_band_other)
  next
    case 2
    consider "a = 14" | "a = 15" | "a = 16" | "a = 17" | "a = 18" | "a < 14 \<or> 18 < a" by arith
    then show ?thesis using assms 2 by cases (auto simp: in_band_of_age in_band_other)
  next
    case 3
    consider "a = 14" | "a = 15" | "a = 16" | "a = 17" | "a = 18" | "a < 14 \<or> 18 < a" by arith
    then show ?thesis using assms 3 by cases (auto simp: in_band_of_age in_band_other)
  next
    case 4
    consider "a = 14" | "a = 15" | "a = 16" | "a = 17" | "a = 18" | "a < 14 \<or> 18 < a" by arith
    then show ?thesis using assms 4 by cases (auto simp: in_band_of_age in_band_other)
  next
    case 5
    consider "a = 14" | "a = 15" | "a = 16" | "a = 17" | "a = 18" | "a < 14 \<or> 18 < a" by arith
    then show ?thesis using assms 5 by cases (auto simp: in_band_of_age in_band_other)
  qed
qed

lemma set_join:
  "set (concat (map (\<lambda>q. map (\<lambda>u. (q, u)) (filter (\<lambda>u. k q = i u) us)) qs)) =
     {(q, u). q \<in> set qs \<and> u \<in> set us \<and> k q = i u}"
  by auto

lemma set_match_query:
  "set (match_query s usr role problem) =
     {(q, u). candidate s usr (opposite_role role) problem q u}"
proof -
  obtain lo hi where b: "get_age_range (age usr) = (lo, hi)" by (cases "get_age_range (age usr)")
  have "set (match_query s usr role problem) =
          {(q, u) \<in> {(q, u). q \<in> set (queue_entries s) \<and> u \<in> set (users s) \<and> q_user_id q = u_id u}.
             q_user_id q \<noteq> u_id usr \<and> q_role q = opposite_role role \<and>
             q_problem_type q = problem \<and> lo \<le> age u \<and> age u \<le> hi \<and>
             is_banned u = False \<and> current_chat_id u = None}"
    unfolding match_query_def b
    by (simp only: Let_def prod.case set_sort set_filter set_join) auto
  also have "\<dots> = {(q, u). candidate s usr (opposite_role role) problem q u}"
    unfolding candidate_def in_band_def b by auto
  finally show ?thesis .
qed

lemma sorted_match_query:
  "sorted (map (\<lambda>(q, u). joined_at q) (match_query s usr role problem))"
proof -
  obtain lo hi where b: "get_age_range (age usr) = (lo, hi)" by (cases "get_age_range (age usr)")
  show ?thesis
    unfolding match_query_def b by (simp add: sorted_sort_key)
qed

lemma find_match_Some:
  assumes "find_match s usr role problem = Some m"
  shows "\<exists>q rest. match_query s usr role problem = (q, m) # rest \<and> in_band (age usr) (age m)"
proof -
  obtain lo hi where b: "get_age_range (age m) = (lo, hi)" by (cases "get_age_range (age m)")
  from assms show ?thesis
    unfolding find_match_def in_band_def
    by (auto split: list.splits prod.splits if_splits)
qed

lemma find_match_None:
  "find_match s usr role problem = None \<longleftrightarrow>
     (case match_query s usr role problem of [] \<Rightarrow> True
      | (q, m) # rest \<Rightarrow> \<not> in_band (age usr) (age m))"
  unfolding find_match_def in_band_def
  by (auto split: list.splits prod.splits if_splits)



subsection \<open>Payloads\<close>

lemma split_us_plain: "CHR ''_'' \<notin> set w \<Longrightarrow> split_us w = [w]"
  by (induction w) auto

lemma split_us_view_chat:
  "CHR ''_'' \<notin> set piece \<Longrightarrow> split_us (''view_chat_'' @ piece) = [''view'', ''chat'', piece]"
  by (simp add: split_us_plain)

lemma route_view_chat:
  assumes "filter (\<lambda>u. telegram_id u = tg) (users s) = [usr]" and "\<not> is_banned usr"
    and "CHR ''_'' \<notin> set piece" and "py_int piece = Inr chat_id"
  shows "handle_callback clk tg (''view_chat_'' @ piece) s = view_chat_history s usr chat_id"
  using assms
  by (simp add: handle_callback_def startswith_def split_us_plain py_index_def)

text \<open>
  The payload of a history button (line 658) is read back by the router
  (line 619) as the chat id it was formatted from.
\<close>

lemma digit_char:
  assumes "d < 10"
  shows "is_digit (char_of (48 + d :: nat))" and "digit_val (char_of (48 + d :: nat)) = int d"
  using assms by (simp_all add: is_digit_def digit_val_def)

lemma nat_digits_facts:
  "nat_digits n \<noteq> [] \<and> list_all is_digit (nat_digits n) \<and>
   foldl (\<lambda>a c. 10 * a + digit_val c) 0 (nat_digits n) = int n"
proof (induction n rule: nat_digits.induct)
  case (1 n)
  show ?case
  proof (cases "n < 10")
    case True
    then show ?thesis by (simp add: nat_digits.simps[of n] digit_char)
  next
    case False
    have m: "n mod 10 < 10" by simp
    have dm: "10 * int (n div 10) + int (n mod 10) = int n"
      by (simp add: zdiv_int zmod_int)
    from 1[OF False] False dm show ?thesis
      by (simp add: nat_digits.simps[of n] digit_char[OF m])
  qed
qed

lemma strip_plain:
  assumes "str \<noteq> []" and "\<not> is_space (hd str)" and "\<not> is_space (last str)"
  shows "strip str = str"
proof -
  from assms(1,2) have a: "dropWhile is_space str = str" by (cases str) simp_all
  from assms(1,3) have "dropWhile is_space (rev str) = rev str"
    by (cases "rev str") (simp_all add: last_rev[symmetric] hd_rev)
  with a show ?thesis by (simp add: strip_def)
qed

lemma digits_value_nat_digits: "digits_value (nat_digits n) = Inr (int n)"
  using nat_digits_facts[of n] by (simp add: digits_value_def)

lemma nat_digits_ends:
  "nat_digits n \<noteq> [] \<and> is_digit (hd (nat_digits n)) \<and> is_digit (last (nat_digits n))"
  using nat_digits_facts[of n] by (cases "nat_digits n" rule: rev_cases) (auto simp: list_all_iff hd_append)

lemma is_digit_plain:
  assumes "is_digit c"
  shows "\<not> is_space c" and "c \<noteq> CHR ''-''" and "c \<noteq> CHR ''+''" and "c \<noteq> CHR ''_''"
  using assms by (auto simp: is_digit_def is_space_def)

lemma py_int_py_str: "py_int (py_str i) = Inr i"
proof (cases "i < 0")
  case True
  let ?ds = "nat_digits (nat (- i))"
  from nat_digits_ends[of "nat (- i)"] have e: "?ds \<noteq> []" "\<not> is_space (last ?ds)"
    by (simp_all add: is_digit_plain)
  have "strip (CHR ''-'' # ?ds) = CHR ''-'' # ?ds"
    using e by (intro strip_plain) (simp_all add: is_space_def)
  then show ?thesis using True
    by (simp add: py_int_def py_str_def digits_value_nat_digits)
next
  case False
  let ?ds = "nat_digits (nat i)"
  from nat_digits_ends[of "nat i"] have e: "?ds \<noteq> []" "\<not> is_space (hd ?ds)" "\<not> is_space (last ?ds)"
    "hd ?ds \<noteq> CHR ''-''" "hd ?ds \<noteq> CHR ''+''"
    by (simp_all add: is_digit_plain)
  have s: "strip ?ds = ?ds" using e by (intro strip_plain)
  obtain c r where cr: "?ds = c # r" using e(1) by (cases ?ds) simp_all
  with e have "c \<noteq> CHR ''-''" "c \<noteq> CHR ''+''" by simp_all
  moreover have "digits_value (c # r) = Inr i"
    using digits_value_nat_digits[of "nat i"] False by (simp add: cr)
  ultimately show ?thesis using False s by (simp add: py_int_def py_str_def cr)
qed

lemma py_str_plain: "CHR ''_'' \<notin> set (py_str i)"
proof -
  have "\<forall>c\<in>set (nat_digits n). c \<noteq> CHR ''_''" for n
    using nat_digits_facts[of n] by (auto simp: list_all_iff is_digit_plain)
  then show ?thesis by (auto simp: py_str_def)
qed

lemma py_int_samples:
  "py_int '' 12 '' = Inr 12 \<and> py_int ''+7'' = Inr 7 \<and> py_int ''-7'' = Inr (- 7) \<and>
   py_int [CHR 0xA0, CHR ''1''] = Inr 1 \<and> py_int [CHR 0x1C, CHR ''1''] = Inl ValueError \<and>
   py_int ''1a'' = Inl ValueError \<and> py_int ''- 1'' = Inl ValueError \<and>
   py_int [] = Inl ValueError"
  by code_simp

lemma view_chat_history_overflow:
  assumes "\<not> sqlite_integer chat_id"
  shows "view_chat_history s usr chat_id = Raised OverflowError s []"
  using assms by (simp add: view_chat_history_def)

lemma history_buttons_payloads:
  assumes "history_buttons s usr i entries = Inr buttons"
  shows "\<forall>(k, a, payload)\<in>set buttons.
           \<exists>(h, c)\<in>set entries. payload = ''view_chat_'' @ py_str (c_id c)"
  using assms
proof (induction entries arbitrary: i buttons)
  case Nil
  then show ?case by simp
next
  case (Cons e entries)
  obtain h c where e: "e = (h, c)" by (cases e)
  from Cons.prems obtain pre rest
    where r: "history_buttons s usr (Suc i) entries = Inr rest"
      and b: "buttons = pre @ rest"
      and pre: "\<forall>(k, a, payload)\<in>set pre. payload = ''view_chat_'' @ py_str (c_id c)"
    by (auto simp: e Let_def split: sum.splits option.splits)
  from Cons.IH[OF r] pre show ?case
    unfolding b e by fastforce
qed



subsection \<open>The find-partner payload and chat creation\<close>

lemma join_us_Cons: "join_us ((c # w) # ws) = c # join_us (w # ws)"
  by (cases ws) simp_all

lemma split_us_nonempty: "split_us t \<noteq> []"
  by (induction t) (auto split: list.splits)

lemma join_split_us: "join_us (split_us t) = t"
proof (induction t)
  case Nil
  then show ?case by simp
next
  case (Cons c cs)
  obtain w ws where sp: "split_us cs = w # ws"
    using split_us_nonempty[of cs] by (cases "split_us cs") auto
  show ?case
  proof (cases "c = CHR ''_''")
    case True
    with Cons sp show ?thesis by simp
  next
    case False
    with Cons sp show ?thesis by (simp add: join_us_Cons)
  qed
qed

lemma split_us_append:
  "CHR ''_'' \<notin> set w \<Longrightarrow> split_us (w @ CHR ''_'' # rest) = w # split_us rest"
  by (induction w) auto

lemma split_us_menu_problem:
  assumes "CHR ''_'' \<notin> set role"
  shows "split_us (''menu_problem_'' @ role @ CHR ''_'' # topic) =
           ''menu'' # ''problem'' # role # split_us topic"
  using split_us_append[OF assms, of topic] by simp

lemma route_menu_problem:
  assumes "filter (\<lambda>u. telegram_id u = tg) (users s) = [usr]" and "\<not> is_banned usr"
  shows "handle_callback clk tg (''menu_problem_'' @ rest) s =
           menu_problem clk s usr (''menu_problem_'' @ rest)"
  using assms by (simp add: handle_callback_def startswith_def)

lemma menu_problem_run:
  assumes "CHR ''_'' \<notin> set role"
    and "add_to_queue (clk 0) (upd_user (u_id usr) (chose role topic) s) usr role topic = Inr s2"
  shows "menu_problem clk s usr (''menu_problem_'' @ role @ CHR ''_'' # topic) =
           (case find_match s2 usr role topic of
              None \<Rightarrow> Done s2 [Edit_message_text Searching, Send_message (telegram_id usr) Queued]
            | Some m \<Rightarrow>
                Done (remove_from_queue
                        (remove_from_queue (snd (create_chat (clk 1) s2 usr m role topic)) (u_id usr))
                        (u_id m))
                  [Edit_message_text Searching,
                   Send_message (telegram_id usr) (Partner_found (age m) (age usr)),
                   Send_message (telegram_id m) (Partner_found (age usr) (age m))])"
proof -
  have ch: "(\<lambda>u. u\<lparr>current_role := Some role, current_problem := Some topic\<rparr>) = chose role topic"
    by (simp add: chose_def fun_eq_iff)
  show ?thesis
    unfolding menu_problem_def split_us_menu_problem[OF assms(1)]
    using assms(2)
    by (simp add: py_index_def join_split_us ch Let_def split: option.splits prod.splits)
qed


lemma in_map_map: "x \<in> set xs \<Longrightarrow> g (h x) \<in> set (map g (map h xs))"
  by simp

lemma from_map_map: "u \<in> set (map g (map h xs)) \<Longrightarrow> \<exists>p\<in>set xs. u = g (h p)"
  by auto

lemma create_chat_effect:
  assumes "create_chat now s user1 user2 r1 problem = (new_chat, s')"
  shows "chats s' = chats s @ [new_chat]"
    and "c_id new_chat = next_id (map c_id (chats s))"
    and "user1_id new_chat = u_id user1" and "user2_id new_chat = u_id user2"
    and "is_active new_chat" and "ended_at new_chat = None"
    and "users s' = map (\<lambda>u. if u_id u = u_id user1 \<or> u_id u = u_id user2
                                then u\<lparr>current_chat_id := Some (c_id new_chat)\<rparr> else u) (users s)"
    and "messages s' = messages s" and "history s' = history s"
    and "queue_entries s' = queue_entries s"
  using assms by (auto simp: create_chat_def Let_def upd_user_def)

lemma find_match_is_candidate:
  assumes "find_match s usr role problem = Some m"
  shows "m \<in> set (users s)" and "u_id m \<noteq> u_id usr" and "\<not> is_banned m"
    and "current_chat_id m = None"
proof -
  from find_match_Some[OF assms] obtain q rest
    where "match_query s usr role problem = (q, m) # rest" by blast
  then have "(q, m) \<in> set (match_query s usr role problem)" by simp
  then have "candidate s usr (opposite_role role) problem q m" by (simp add: set_match_query)
  then show "m \<in> set (users s)" and "u_id m \<noteq> u_id usr" and "\<not> is_banned m"
    and "current_chat_id m = None"
    by (simp_all add: candidate_def)
qed

subsection \<open>History rows and the end of a chat\<close>

lemma filter_map_commute:
  assumes "\<And>x. P (g x) = P x"
  shows "filter P (map g xs) = map g (filter P xs)"
  using assms by (induction xs) auto

lemma filter_pair_cases:
  assumes "distinct (map (\<lambda>h. (h_user_id h, h_chat_id h)) hs)"
  shows "filter (\<lambda>h. h_user_id h = uid \<and> h_chat_id h = cid) hs = [] \<or>
         (\<exists>x\<in>set hs. h_user_id x = uid \<and> h_chat_id x = cid \<and>
            filter (\<lambda>h. h_user_id h = uid \<and> h_chat_id h = cid) hs = [x])"
proof -
  have eq: "(\<lambda>h. h_user_id h = uid \<and> h_chat_id h = cid) =
            (\<lambda>h. (h_user_id h, h_chat_id h) = (uid, cid))" by auto
  from filter_key_cases[OF assms, of "(uid, cid)"] show ?thesis
    unfolding eq by auto
qed

lemma record_history_step:
  assumes di: "distinct (map h_id (history s))"
      and dp: "distinct (map (\<lambda>h. (h_user_id h, h_chat_id h)) (history s))"
  shows "\<exists>s' e. record_history now uid cid s = Inr s' \<and>
           filter (\<lambda>h. h_user_id h = uid \<and> h_chat_id h = cid) (history s') = [e] \<and>
           viewed_at e = now \<and>
           distinct (map h_id (history s')) \<and>
           distinct (map (\<lambda>h. (h_user_id h, h_chat_id h)) (history s')) \<and>
           filter (\<lambda>h. \<not> (h_user_id h = uid \<and> h_chat_id h = cid)) (history s') =
             filter (\<lambda>h. \<not> (h_user_id h = uid \<and> h_chat_id h = cid)) (history s) \<and>
           users s' = users s \<and> chats s' = chats s \<and> messages s' = messages s \<and>
           queue_entries s' = queue_entries s"
proof -
  let ?hs = "history s"
  let ?P = "\<lambda>h. h_user_id h = uid \<and> h_chat_id h = cid"
  from filter_pair_cases[OF dp, of uid cid]
  consider (absent) "filter ?P ?hs = []"
    | (present) x where "x \<in> set ?hs" "h_user_id x = uid" "h_chat_id x = cid" "filter ?P ?hs = [x]"
    by blast
  then show ?thesis
  proof cases
    case absent
    let ?n = "\<lparr>h_id = next_id (map h_id ?hs), h_user_id = uid, h_chat_id = cid, viewed_at = now\<rparr>"
    have run: "record_history now uid cid s = Inr (s\<lparr>history := ?hs @ [?n]\<rparr>)"
      by (simp add: record_history_def absent session_delete_not_awaited_def Let_def
            split: list.splits)
    have none: "\<forall>h\<in>set ?hs. \<not> ?P h" using absent by (simp add: filter_empty_conv)
    then have notin: "(uid, cid) \<notin> (\<lambda>h. (h_user_id h, h_chat_id h)) ` set ?hs"
      by (auto simp: image_iff)
    have same: "filter (\<lambda>h. \<not> ?P h) ?hs = ?hs"
      using none by (simp add: filter_id_conv)
    show ?thesis
      apply (rule exI[of _ "s\<lparr>history := ?hs @ [?n]\<rparr>"], rule exI[of _ ?n])
      using run absent notin same di dp next_id_fresh[of "map h_id ?hs"] by simp
  next
    case present
    let ?g = "\<lambda>h. if h_id h = h_id x then h\<lparr>viewed_at := now\<rparr> else h"
    have run: "record_history now uid cid s = Inr (s\<lparr>history := map ?g ?hs\<rparr>)"
      by (simp add: record_history_def present(4))
    have "map h_id (map ?g ?hs) = map h_id ?hs"
      by (rule map_key_preserved) simp
    with di have ids: "distinct (map h_id (map ?g ?hs))" by (simp only:)
    have "map (\<lambda>h. (h_user_id h, h_chat_id h)) (map ?g ?hs) =
          map (\<lambda>h. (h_user_id h, h_chat_id h)) ?hs"
      by (rule map_key_preserved) simp
    with dp have pairs: "distinct (map (\<lambda>h. (h_user_id h, h_chat_id h)) (map ?g ?hs))"
      by (simp only:)
    have f1: "filter ?P (map ?g ?hs) = [?g x]"
    proof -
      have "filter ?P (map ?g ?hs) = map ?g (filter ?P ?hs)"
        by (rule filter_map_commute) simp
      then show ?thesis by (simp add: present(4))
    qed
    have others: "filter (\<lambda>h. \<not> ?P h) (map ?g ?hs) = filter (\<lambda>h. \<not> ?P h) ?hs"
    proof (rule filter_map_fixed)
      fix h assume h: "h \<in> set ?hs" "\<not> ?P h"
      then have "h \<noteq> x" using present(2,3) by auto
      then have "h_id h \<noteq> h_id x"
        using di h(1) present(1) by (meson distinct_map inj_onD)
      then show "?g h = h" by simp
    next
      fix h show "(\<not> ?P (?g h)) = (\<not> ?P h)" by simp
    qed
    show ?thesis
      apply (rule exI[of _ "s\<lparr>history := map ?g ?hs\<rparr>"], rule exI[of _ "?g x"])
      using run f1 others ids pairs by simp
  qed
qed


lemma filter_through:
  assumes "\<And>x. P x \<Longrightarrow> Q x" and "filter Q xs = filter Q ys"
  shows "filter P xs = filter P ys"
proof -
  have "filter P zs = filter P (filter Q zs)" for zs
    using assms(1) by (induction zs) auto
  from this[of xs] this[of ys] assms(2) show ?thesis by simp
qed

lemma route_end_chat:
  assumes "filter (\<lambda>u. telegram_id u = tg) (users s) = [usr]" and "\<not> is_banned usr"
  shows "handle_callback clk tg ''end_chat'' s = end_chat clk s usr"
  using assms by (simp add: handle_callback_def startswith_def)

lemma end_chat_run:
  assumes chat: "filter (\<lambda>c. c_id c = cid) (chats s) = [cht]" and ref: "current_chat_id usr = Some cid"
    and nz: "cid \<noteq> 0"
    and partner: "filter (\<lambda>u. u_id u = other_participant cht (u_id usr)) (users s) = [partner]"
    and h1: "record_history (clk 1) (u_id usr) (c_id cht)
               (upd_user (u_id usr) (\<lambda>u. u\<lparr>current_chat_id := None\<rparr>)
                 (upd_user (u_id partner) (\<lambda>u. u\<lparr>current_chat_id := None\<rparr>)
                   (upd_chat (c_id cht) (\<lambda>c. c\<lparr>is_active := False, ended_at := Some (clk 0)\<rparr>) s)))
             = Inr s4"
    and h2: "record_history (clk 2) (u_id partner) (c_id cht) s4 = Inr s5"
  shows "end_chat clk s usr =
           Done s5 [Send_message (telegram_id partner) Partner_ended_chat,
                    Edit_message_text Chat_ended]"
proof -
  have users1: "users (upd_chat (c_id cht) f s) = users s" for f
    by (simp add: upd_chat_def)
  show ?thesis
    unfolding end_chat_def
    using nz h1 h2 by (simp add: ref truthy_ref_def chat Let_def users1
        other_participant_def[symmetric] partner)
qed


subsection \<open>What a sweep leaves alone\<close>

lemma remove_from_queue_effect:
  "users (remove_from_queue s uid) = users s"
  "chats (remove_from_queue s uid) = chats s"
  "set (queue_entries (remove_from_queue s uid)) \<subseteq> set (queue_entries s)"
  "\<forall>q\<in>set (queue_entries (remove_from_queue s uid)). q_user_id q \<noteq> uid"
  by (auto simp: remove_from_queue_def)

lemma stale_row_is_stale:
  assumes st: "stale s x" and nz: "\<forall>u\<in>set (users s). current_chat_id u \<noteq> Some 0"
    and same: "filter (\<lambda>u. u_id u = x) (users s') = filter (\<lambda>u. u_id u = x) (users s)"
    and u: "u \<in> set (users s')" "u_id u = x"
  shows "is_banned u \<or> truthy_ref (current_chat_id u) \<noteq> None"
proof -
  from u have "u \<in> set (filter (\<lambda>u. u_id u = x) (users s'))" by simp
  then have in_s: "u \<in> set (users s)" by (simp add: same)
  with st u(2) have "is_banned u \<or> current_chat_id u \<noteq> None" by (simp add: stale_def)
  moreover from nz in_s have "current_chat_id u \<noteq> Some 0" by blast
  ultimately show ?thesis by (auto simp: truthy_ref_def split: option.splits)
qed

lemma passed_over_removal:
  assumes "passed_over s x w"
  shows "passed_over s x (w\<lparr>sw_db := remove_from_queue (sw_db w) uid\<rparr>)"
  using assms remove_from_queue_effect(3)[of "sw_db w" uid]
  by (auto simp: passed_over_def remove_from_queue_effect(1,2))

lemma passed_over_processed:
  assumes "passed_over s x w" and "uid \<noteq> x"
  shows "passed_over s x (w\<lparr>processed_users := insert uid (processed_users w)\<rparr>)"
  using assms by (auto simp: passed_over_def)


lemma passed_over_match:
  assumes inv: "passed_over s x w"
    and cc: "create_chat now (sw_db w) usr m r p = (new_chat, s1)"
    and ne: "u_id usr \<noteq> x" "u_id m \<noteq> x"
  shows "passed_over s x
           \<lparr>sw_db = remove_from_queue (remove_from_queue s1 (u_id usr)) (u_id m),
            processed_users = insert (u_id usr) (insert (u_id m) (processed_users w)),
            sw_ticks = n, sw_sent = out\<rparr>"
proof -
  note E = create_chat_effect[OF cc]
  let ?g = "\<lambda>u. if u_id u = u_id usr \<or> u_id u = u_id m
                 then u\<lparr>current_chat_id := Some (c_id new_chat)\<rparr> else u"
  let ?s' = "remove_from_queue (remove_from_queue s1 (u_id usr)) (u_id m)"
  have users': "users ?s' = map ?g (users (sw_db w))"
    by (simp add: remove_from_queue_effect(1) E(7))
  have chats': "chats ?s' = chats (sw_db w) @ [new_chat]"
    by (simp add: remove_from_queue_effect(2) E(1))
  have "map u_id (map ?g (users (sw_db w))) = map u_id (users (sw_db w))"
    by (rule map_key_preserved) simp
  with inv have d: "distinct (map u_id (users ?s'))"
    by (simp only: users' passed_over_def)
  have "filter (\<lambda>u. u_id u = x) (map ?g (users (sw_db w))) =
        filter (\<lambda>u. u_id u = x) (users (sw_db w))"
    by (rule filter_map_fixed) (use ne in auto)
  with inv have f: "filter (\<lambda>u. u_id u = x) (users ?s') = filter (\<lambda>u. u_id u = x) (users s)"
    by (simp only: users' passed_over_def)
  have c: "\<forall>c\<in>set (chats ?s'). c \<in> set (chats s) \<or> (user1_id c \<noteq> x \<and> user2_id c \<noteq> x)"
    using inv ne E(3,4) by (auto simp: chats' passed_over_def)
  have q: "set (queue_entries ?s') \<subseteq> set (queue_entries s)"
    using inv E(10) by (auto simp: remove_from_queue_def passed_over_def)
  have pr: "x \<notin> insert (u_id usr) (insert (u_id m) (processed_users w))"
    using inv ne by (auto simp: passed_over_def)
  show ?thesis
    unfolding passed_over_def using d f c q pr by simp
qed

lemma sweep_step_passes_over:
  assumes st: "stale s x" and nz: "\<forall>u\<in>set (users s). current_chat_id u \<noteq> Some 0"
    and inv: "passed_over s x w"
  shows "\<exists>w'. sweep_step clk q w = Inr w' \<and> passed_over s x w' \<and>
              set (queue_entries (sw_db w')) \<subseteq> set (queue_entries (sw_db w)) \<and>
              (q_user_id q = x \<longrightarrow>
                 w' = w\<lparr>sw_db := remove_from_queue (sw_db w) (q_user_id q)\<rparr>)"
proof -
  let ?db = "sw_db w"
  let ?uid = "q_user_id q"
  let ?rm = "w\<lparr>sw_db := remove_from_queue ?db ?uid\<rparr>"
  from inv have d: "distinct (map u_id (users ?db))"
    and same: "filter (\<lambda>u. u_id u = x) (users ?db) = filter (\<lambda>u. u_id u = x) (users s)"
    and nx: "x \<notin> processed_users w"
    by (simp_all add: passed_over_def)
  have rm_ok: "passed_over s x ?rm \<and>
               set (queue_entries (sw_db ?rm)) \<subseteq> set (queue_entries ?db)"
    using passed_over_removal[OF inv, of ?uid] remove_from_queue_effect(3)[of ?db ?uid] by simp
  show ?thesis
  proof (cases "?uid \<in> processed_users w")
    case True
    then have "sweep_step clk q w = Inr w" by (simp add: sweep_step_def)
    moreover from True nx have "?uid \<noteq> x" by blast
    ultimately show ?thesis using inv by auto
  next
    case False
    from filter_key_cases[OF d, of ?uid]
    consider (missing) "filter (\<lambda>u. u_id u = ?uid) (users ?db) = []"
      | (found) usr where "usr \<in> set (users ?db)" "u_id usr = ?uid"
          "filter (\<lambda>u. u_id u = ?uid) (users ?db) = [usr]"
      by blast
    then show ?thesis
    proof cases
      case missing
      with False have "sweep_step clk q w = Inr ?rm" by (simp add: sweep_step_def)
      with rm_ok show ?thesis by simp
    next
      case found
      show ?thesis
      proof (cases "is_banned usr \<or> truthy_ref (current_chat_id usr) \<noteq> None")
        case True
        with False found(3) have "sweep_step clk q w = Inr ?rm"
          by (auto simp: sweep_step_def)
        with rm_ok show ?thesis by simp
      next
        case fresh: False
        have ux: "u_id usr \<noteq> x"
          using stale_row_is_stale[OF st nz same found(1)] fresh by blast
        with found(2) have qx: "?uid \<noteq> x" by simp
        let ?done = "w\<lparr>processed_users := insert (u_id usr) (processed_users w)\<rparr>"
        have done_ok: "passed_over s x ?done \<and>
                       set (queue_entries (sw_db ?done)) \<subseteq> set (queue_entries ?db)"
          using passed_over_processed[OF inv ux] by simp
        show ?thesis
        proof (cases "find_match ?db usr (q_role q) (q_problem_type q)")
          case None
          with False found(3) fresh have "sweep_step clk q w = Inr ?done"
            by (simp add: sweep_step_def)
          with done_ok qx show ?thesis by simp
        next
          case (Some m)
          note C = find_match_is_candidate[OF Some]
          have mx: "u_id m \<noteq> x"
            using stale_row_is_stale[OF st nz same C(1)] C(3,4) by (auto simp: truthy_ref_def)
          have lm: "filter (\<lambda>u. u_id u = u_id m) (users ?db) = [m]"
            using d C(1) by (rule filter_key_unique)
          obtain new_chat s1 where cc:
            "create_chat (clk (sw_ticks w)) ?db usr m (q_role q) (q_problem_type q) = (new_chat, s1)"
            by (cases "create_chat (clk (sw_ticks w)) ?db usr m (q_role q) (q_problem_type q)")
          let ?w' = "\<lparr>sw_db = remove_from_queue (remove_from_queue s1 (u_id usr)) (u_id m),
                      processed_users = insert (u_id usr) (insert (u_id m) (processed_users w)),
                      sw_ticks = Suc (sw_ticks w),
                      sw_sent = sw_sent w @
                        [Send_message (telegram_id usr) (Partner_found (age m) (age usr)),
                         Send_message (telegram_id m) (Partner_found (age usr) (age m))]\<rparr>"
          have run: "sweep_step clk q w = Inr ?w'"
            using False found(3) fresh Some lm C(4) cc
            by (simp add: sweep_step_def truthy_ref_def)
          have inv': "passed_over s x ?w'"
            by (rule passed_over_match[OF inv cc ux mx])
          have sub: "set (queue_entries (sw_db ?w')) \<subseteq> set (queue_entries ?db)"
            using create_chat_effect(10)[OF cc] by (auto simp: remove_from_queue_def)
          from run inv' sub qx show ?thesis by simp
        qed
      qed
    qed
  qed
qed


lemma sweep_loop_passes_over:
  assumes st: "stale s x" and nz: "\<forall>u\<in>set (users s). current_chat_id u \<noteq> Some 0"
  shows "passed_over s x w \<Longrightarrow>
         \<exists>w'. sweep_loop clk qs w = (None, w') \<and> passed_over s x w' \<and>
              set (queue_entries (sw_db w')) \<subseteq> set (queue_entries (sw_db w)) \<and>
              ((\<exists>q\<in>set qs. q_user_id q = x) \<longrightarrow>
                 (\<forall>q'\<in>set (queue_entries (sw_db w')). q_user_id q' \<noteq> x))"
proof (induction qs arbitrary: w)
  case Nil
  then show ?case by simp
next
  case (Cons q qs)
  from sweep_step_passes_over[OF st nz Cons.prems, of clk q]
  obtain w1 where step: "sweep_step clk q w = Inr w1" and inv1: "passed_over s x w1"
    and sub1: "set (queue_entries (sw_db w1)) \<subseteq> set (queue_entries (sw_db w))"
    and here: "q_user_id q = x \<longrightarrow> w1 = w\<lparr>sw_db := remove_from_queue (sw_db w) (q_user_id q)\<rparr>"
    by blast
  from Cons.IH[OF inv1]
  obtain w' where loop: "sweep_loop clk qs w1 = (None, w')" and inv': "passed_over s x w'"
    and sub': "set (queue_entries (sw_db w')) \<subseteq> set (queue_entries (sw_db w1))"
    and later: "(\<exists>q\<in>set qs. q_user_id q = x) \<longrightarrow>
                 (\<forall>q'\<in>set (queue_entries (sw_db w')). q_user_id q' \<noteq> x)"
    by blast
  have run: "sweep_loop clk (q # qs) w = (None, w')" using step loop by simp
  have sub: "set (queue_entries (sw_db w')) \<subseteq> set (queue_entries (sw_db w))"
    using sub1 sub' by blast
  have gone: "\<forall>q'\<in>set (queue_entries (sw_db w')). q_user_id q' \<noteq> x"
    if "\<exists>q'\<in>set (q # qs). q_user_id q' = x"
  proof (cases "q_user_id q = x")
    case True
    with here have "w1 = w\<lparr>sw_db := remove_from_queue (sw_db w) x\<rparr>" by simp
    then have "\<forall>q'\<in>set (queue_entries (sw_db w1)). q_user_id q' \<noteq> x"
      using remove_from_queue_effect(4)[of "sw_db w" x] by simp
    with sub' show ?thesis by blast
  next
    case False
    with that have "\<exists>q\<in>set qs. q_user_id q = x" by simp
    with later show ?thesis by blast
  qed
  from run inv' sub gone show ?case by blast
qed

lemma passed_over_start:
  "distinct (map u_id (users s)) \<Longrightarrow>
   passed_over s x \<lparr>sw_db = s, processed_users = {}, sw_ticks = 0, sw_sent = []\<rparr>"
  by (simp add: passed_over_def)

subsection \<open>The end-chat branch, step by step\<close>

lemma end_chat_effect:
  assumes ok: "schema_ok s"
    and pairs: "distinct (map (\<lambda>h. (h_user_id h, h_chat_id h)) (history s))"
    and usr: "usr \<in> set (users s)" "telegram_id usr = tg" "\<not> is_banned usr"
    and cht: "cht \<in> set (chats s)" "current_chat_id usr = Some (c_id cht)"
    and part: "user1_id cht = u_id usr \<or> user2_id cht = u_id usr"
    and two: "user1_id cht \<noteq> user2_id cht"
    and partner: "partner \<in> set (users s)" "u_id partner = other_participant cht (u_id usr)"
  shows "\<exists>s' hu hp.
           handle_callback clk tg ''end_chat'' s =
             Done s' [Send_message (telegram_id partner) Partner_ended_chat,
                      Edit_message_text Chat_ended] \<and>
           filter (\<lambda>c. c_id c = c_id cht) (chats s') =
             [cht\<lparr>is_active := False, ended_at := Some (clk 0)\<rparr>] \<and>
           filter (\<lambda>c. c_id c \<noteq> c_id cht) (chats s') = filter (\<lambda>c. c_id c \<noteq> c_id cht) (chats s) \<and>
           filter (\<lambda>u. u_id u = u_id usr) (users s') = [usr\<lparr>current_chat_id := None\<rparr>] \<and>
           filter (\<lambda>u. u_id u = u_id partner) (users s') = [partner\<lparr>current_chat_id := None\<rparr>] \<and>
           filter (\<lambda>h. h_user_id h = u_id usr \<and> h_chat_id h = c_id cht) (history s') = [hu] \<and>
           viewed_at hu = clk 1 \<and>
           filter (\<lambda>h. h_user_id h = u_id partner \<and> h_chat_id h = c_id cht) (history s') = [hp] \<and>
           viewed_at hp = clk 2"
proof -
  let ?clear = "\<lambda>u::user. u\<lparr>current_chat_id := None\<rparr>"
  let ?close = "\<lambda>c::chat. c\<lparr>is_active := False, ended_at := Some (clk 0)\<rparr>"
  let ?s1 = "upd_chat (c_id cht) ?close s"
  let ?s3 = "upd_user (u_id usr) ?clear (upd_user (u_id partner) ?clear ?s1)"
  have look: "filter (\<lambda>u. telegram_id u = tg) (users s) = [usr]"
    using ok usr(1,2) lookup_by_telegram_id by blast
  have c: "filter (\<lambda>c. c_id c = c_id cht) (chats s) = [cht]"
    using ok cht(1) by (rule lookup_by_c_id)
  have nz: "c_id cht \<noteq> 0" using ok cht(1) by (auto simp: schema_ok_def)
  have p: "filter (\<lambda>u. u_id u = other_participant cht (u_id usr)) (users s) = [partner]"
    using lookup_by_u_id[OF ok partner(1)] partner(2) by simp
  have u: "filter (\<lambda>u. u_id u = u_id usr) (users s) = [usr]"
    using ok usr(1) by (rule lookup_by_u_id)
  have ne: "u_id partner \<noteq> u_id usr"
    using part two partner(2) by (auto simp: other_participant_def)
  have hist3: "history ?s3 = history s" and chats3: "chats ?s3 = map (\<lambda>c. if c_id c = c_id cht then ?close c else c) (chats s)"
    and users3: "users ?s3 = map (\<lambda>u. if u_id u = u_id usr then ?clear u else u)
                               (map (\<lambda>u. if u_id u = u_id partner then ?clear u else u) (users s))"
    by (simp_all add: upd_user_def upd_chat_def)
  from ok have di: "distinct (map h_id (history ?s3))" by (simp add: hist3 schema_ok_def)
  from pairs have dp: "distinct (map (\<lambda>h. (h_user_id h, h_chat_id h)) (history ?s3))"
    by (simp add: hist3)
  from record_history_step[OF di dp, of "clk 1" "u_id usr" "c_id cht"]
  obtain s4 hu where r1: "record_history (clk 1) (u_id usr) (c_id cht) ?s3 = Inr s4"
    and hu: "filter (\<lambda>h. h_user_id h = u_id usr \<and> h_chat_id h = c_id cht) (history s4) = [hu]"
      "viewed_at hu = clk 1"
    and di4: "distinct (map h_id (history s4))"
    and dp4: "distinct (map (\<lambda>h. (h_user_id h, h_chat_id h)) (history s4))"
    and users4: "users s4 = users ?s3" and chats4: "chats s4 = chats ?s3"
    by blast
  from record_history_step[OF di4 dp4, of "clk 2" "u_id partner" "c_id cht"]
  obtain s5 hp where r2: "record_history (clk 2) (u_id partner) (c_id cht) s4 = Inr s5"
    and hp: "filter (\<lambda>h. h_user_id h = u_id partner \<and> h_chat_id h = c_id cht) (history s5) = [hp]"
      "viewed_at hp = clk 2"
    and others: "filter (\<lambda>h. \<not> (h_user_id h = u_id partner \<and> h_chat_id h = c_id cht)) (history s5) =
                 filter (\<lambda>h. \<not> (h_user_id h = u_id partner \<and> h_chat_id h = c_id cht)) (history s4)"
    and users5: "users s5 = users s4" and chats5: "chats s5 = chats s4"
    by blast
  have run: "handle_callback clk tg ''end_chat'' s =
             Done s5 [Send_message (telegram_id partner) Partner_ended_chat,
                      Edit_message_text Chat_ended]"
    unfolding route_end_chat[OF look usr(3)]
    by (rule end_chat_run[OF c cht(2) nz p r1 r2])
  have hu5: "filter (\<lambda>h. h_user_id h = u_id usr \<and> h_chat_id h = c_id cht) (history s5) = [hu]"
  proof -
    have "filter (\<lambda>h. h_user_id h = u_id usr \<and> h_chat_id h = c_id cht) (history s5) =
          filter (\<lambda>h. h_user_id h = u_id usr \<and> h_chat_id h = c_id cht) (history s4)"
      by (rule filter_through[OF _ others]) (use ne in auto)
    then show ?thesis by (simp only: hu)
  qed
  have chat5: "filter (\<lambda>c. c_id c = c_id cht) (chats s5) = [?close cht]"
  proof -
    have "filter (\<lambda>c. c_id c = c_id cht) (map (\<lambda>c. if c_id c = c_id cht then ?close c else c) (chats s)) =
          map (\<lambda>c. if c_id c = c_id cht then ?close c else c) (filter (\<lambda>c. c_id c = c_id cht) (chats s))"
      by (rule filter_map_key_preserved) simp
    then show ?thesis by (simp add: chats5 chats4 chats3 c)
  qed
  have rest5: "filter (\<lambda>c. c_id c \<noteq> c_id cht) (chats s5) = filter (\<lambda>c. c_id c \<noteq> c_id cht) (chats s)"
    unfolding chats5 chats4 chats3 by (rule filter_map_fixed) auto
  have inner_u: "filter (\<lambda>u. u_id u = k) (map (\<lambda>u. if u_id u = j then ?clear u else u) xs) =
                 map (\<lambda>u. if u_id u = j then ?clear u else u) (filter (\<lambda>u. u_id u = k) xs)"
    for k j and xs :: "user list"
    by (rule filter_map_key_preserved) simp
  have usr5: "filter (\<lambda>u. u_id u = u_id usr) (users s5) = [?clear usr]"
    unfolding users5 users4 users3 inner_u u using ne by simp
  have partner5: "filter (\<lambda>u. u_id u = u_id partner) (users s5) = [?clear partner]"
    unfolding users5 users4 users3 inner_u lookup_by_u_id[OF ok partner(1)] using ne by simp
  have body: "handle_callback clk tg ''end_chat'' s =
             Done s5 [Send_message (telegram_id partner) Partner_ended_chat,
                      Edit_message_text Chat_ended] \<and>
           filter (\<lambda>c. c_id c = c_id cht) (chats s5) = [?close cht] \<and>
           filter (\<lambda>c. c_id c \<noteq> c_id cht) (chats s5) = filter (\<lambda>c. c_id c \<noteq> c_id cht) (chats s) \<and>
           filter (\<lambda>u. u_id u = u_id usr) (users s5) = [?clear usr] \<and>
           filter (\<lambda>u. u_id u = u_id partner) (users s5) = [?clear partner] \<and>
           filter (\<lambda>h. h_user_id h = u_id usr \<and> h_chat_id h = c_id cht) (history s5) = [hu] \<and>
           viewed_at hu = clk 1 \<and>
           filter (\<lambda>h. h_user_id h = u_id partner \<and> h_chat_id h = c_id cht) (history s5) = [hp] \<and>
           viewed_at hp = clk 2"
    using run chat5 rest5 usr5 partner5 hu5 hu(2) hp by (intro conjI) assumption+
  show ?thesis
    by (rule exI[of _ s5], rule exI[of _ hu], rule exI[of _ hp]) (rule body)
qed

subsection \<open>What the handlers keep true\<close>

text \<open>
  Every handler of the model takes a sound state to a sound state, also when
  it ends in an exception.
\<close>

lemma in_map: "x \<in> set xs \<Longrightarrow> g x \<in> set (map g xs)"
  by simp

lemma consistent_iff:
  "consistent s \<longleftrightarrow>
     (\<forall>c\<in>set (chats s). user1_id c \<noteq> user2_id c \<and>
        user1_id c \<in> u_id ` set (users s) \<and> user2_id c \<in> u_id ` set (users s)) \<and>
     (\<forall>u\<in>set (users s). \<forall>cid. current_chat_id u = Some cid \<longrightarrow>
        (\<exists>c\<in>set (chats s). c_id c = cid \<and> (user1_id c = u_id u \<or> user2_id c = u_id u))) \<and>
     distinct (map (\<lambda>h. (h_user_id h, h_chat_id h)) (history s))"
proof -
  have "(case r of None \<Rightarrow> True | Some cid \<Rightarrow> P cid) \<longleftrightarrow> (\<forall>cid. r = Some cid \<longrightarrow> P cid)"
    for r :: "int option" and P
    by (cases r) simp_all
  then show ?thesis unfolding consistent_def by simp
qed

lemma schema_okI:
  assumes "distinct (map u_id (users s))" "distinct (map telegram_id (users s))"
    "distinct (map c_id (chats s))" "\<forall>c\<in>set (chats s). 0 < c_id c"
    "distinct (map m_id (messages s))" "distinct (map h_id (history s))"
    "distinct (map q_id (queue_entries s))" "distinct (map q_user_id (queue_entries s))"
  shows "schema_ok s"
  using assms by (simp add: schema_ok_def)

lemma schema_okD:
  assumes "schema_ok s"
  shows "distinct (map u_id (users s))" "distinct (map telegram_id (users s))"
    "distinct (map c_id (chats s))" "\<forall>c\<in>set (chats s). 0 < c_id c"
    "distinct (map m_id (messages s))" "distinct (map h_id (history s))"
    "distinct (map q_id (queue_entries s))" "distinct (map q_user_id (queue_entries s))"
  using assms by (simp_all add: schema_ok_def)

lemma consistentD:
  assumes "consistent s"
  shows "\<And>c. c \<in> set (chats s) \<Longrightarrow> user1_id c \<noteq> user2_id c \<and>
           user1_id c \<in> u_id ` set (users s) \<and> user2_id c \<in> u_id ` set (users s)"
    and "\<And>u cid. u \<in> set (users s) \<Longrightarrow> current_chat_id u = Some cid \<Longrightarrow>
           \<exists>c\<in>set (chats s). c_id c = cid \<and> (user1_id c = u_id u \<or> user2_id c = u_id u)"
    and "distinct (map (\<lambda>h. (h_user_id h, h_chat_id h)) (history s))"
  using assms by (simp_all add: consistent_iff)

lemma consistentI:
  assumes "\<And>c. c \<in> set (chats s) \<Longrightarrow> user1_id c \<noteq> user2_id c \<and>
           user1_id c \<in> u_id ` set (users s) \<and> user2_id c \<in> u_id ` set (users s)"
    and "\<And>u cid. u \<in> set (users s) \<Longrightarrow> current_chat_id u = Some cid \<Longrightarrow>
           \<exists>c\<in>set (chats s). c_id c = cid \<and> (user1_id c = u_id u \<or> user2_id c = u_id u)"
    and "distinct (map (\<lambda>h. (h_user_id h, h_chat_id h)) (history s))"
  shows "consistent s"
  using assms by (simp add: consistent_iff)

lemma schema_ok_upd_user:
  assumes "schema_ok s" and "\<And>u. u_id (f u) = u_id u" and "\<And>u. telegram_id (f u) = telegram_id u"
  shows "schema_ok (upd_user uid f s)"
proof -
  let ?g = "\<lambda>u. if u_id u = uid then f u else u"
  note D = schema_okD[OF assms(1)]
  have sel: "users (upd_user uid f s) = map ?g (users s)" "chats (upd_user uid f s) = chats s"
    "messages (upd_user uid f s) = messages s" "history (upd_user uid f s) = history s"
    "queue_entries (upd_user uid f s) = queue_entries s"
    by (simp_all add: upd_user_def)
  have a: "map u_id (map ?g (users s)) = map u_id (users s)"
    by (rule map_key_preserved) (simp add: assms(2))
  have b: "map telegram_id (map ?g (users s)) = map telegram_id (users s)"
    by (rule map_key_preserved) (simp add: assms(3))
  show ?thesis
    unfolding schema_ok_def sel a b using D by (intro conjI) assumption+
qed

lemma consistent_upd_user:
  assumes "consistent s" and "\<And>u. u_id (f u) = u_id u"
    and "\<And>u. current_chat_id (f u) = current_chat_id u \<or> current_chat_id (f u) = None"
  shows "consistent (upd_user uid f s)"
proof -
  let ?g = "\<lambda>u. if u_id u = uid then f u else u"
  have users': "users (upd_user uid f s) = map ?g (users s)"
    and rest: "chats (upd_user uid f s) = chats s" "history (upd_user uid f s) = history s"
    by (simp_all add: upd_user_def)
  have "map u_id (map ?g (users s)) = map u_id (users s)"
    by (rule map_key_preserved) (simp add: assms(2))
  then have "set (map u_id (map ?g (users s))) = set (map u_id (users s))" by simp
  then have ids: "u_id ` set (map ?g (users s)) = u_id ` set (users s)"
    by (simp only: set_map)
  have refs: "\<exists>c\<in>set (chats s). c_id c = cid \<and> (user1_id c = u_id u' \<or> user2_id c = u_id u')"
    if "u' \<in> set (map ?g (users s))" "current_chat_id u' = Some cid" for u' cid
  proof -
    from that(1) obtain u where u: "u \<in> set (users s)" "u' = ?g u" by auto
    have "u_id u' = u_id u" using u(2) assms(2) by simp
    moreover have "current_chat_id u = Some cid"
      using u(2) that(2) assms(3)[of u] by (auto split: if_splits)
    ultimately show ?thesis using assms(1) u(1) by (simp add: consistent_iff)
  qed
  show ?thesis
    unfolding consistent_iff users' rest ids
    using assms(1) refs by (simp add: consistent_iff)
qed

lemma schema_ok_upd_chat:
  assumes "schema_ok s" and "\<And>c. c_id (f c) = c_id c"
  shows "schema_ok (upd_chat cid f s)"
proof -
  let ?g = "\<lambda>c. if c_id c = cid then f c else c"
  note D = schema_okD[OF assms(1)]
  have sel: "chats (upd_chat cid f s) = map ?g (chats s)" "users (upd_chat cid f s) = users s"
    "messages (upd_chat cid f s) = messages s" "history (upd_chat cid f s) = history s"
    "queue_entries (upd_chat cid f s) = queue_entries s"
    by (simp_all add: upd_chat_def)
  have a: "map c_id (map ?g (chats s)) = map c_id (chats s)"
    by (rule map_key_preserved) (simp add: assms(2))
  have "set (map c_id (map ?g (chats s))) = set (map c_id (chats s))" by (simp only: a)
  then have "c_id ` set (map ?g (chats s)) = c_id ` set (chats s)" by (simp only: set_map)
  moreover from D(4) have "\<forall>k\<in>c_id ` set (chats s). 0 < k" by blast
  ultimately have "\<forall>k\<in>c_id ` set (map ?g (chats s)). 0 < k" by simp
  then have pos: "\<forall>c\<in>set (map ?g (chats s)). 0 < c_id c" by blast
  show ?thesis
    unfolding schema_ok_def sel a using D(1,2,3) pos D(5,6,7,8) by (intro conjI) assumption+
qed

lemma consistent_upd_chat:
  assumes "consistent s" and "\<And>c. c_id (f c) = c_id c"
    and "\<And>c. user1_id (f c) = user1_id c" and "\<And>c. user2_id (f c) = user2_id c"
  shows "consistent (upd_chat cid f s)"
proof -
  let ?g = "\<lambda>c. if c_id c = cid then f c else c"
  have keep: "c_id (?g c) = c_id c" "user1_id (?g c) = user1_id c" "user2_id (?g c) = user2_id c"
    for c using assms(2,3,4) by simp_all
  have chats': "chats (upd_chat cid f s) = map ?g (chats s)"
    and rest: "users (upd_chat cid f s) = users s" "history (upd_chat cid f s) = history s"
    by (simp_all add: upd_chat_def)
  have part: "user1_id c' \<noteq> user2_id c' \<and> user1_id c' \<in> u_id ` set (users s) \<and>
              user2_id c' \<in> u_id ` set (users s)"
    if "c' \<in> set (map ?g (chats s))" for c'
  proof -
    from that obtain c where c: "c \<in> set (chats s)" "c' = ?g c" by auto
    from assms(1) c(1) have "user1_id c \<noteq> user2_id c \<and> user1_id c \<in> u_id ` set (users s) \<and>
              user2_id c \<in> u_id ` set (users s)" by (simp add: consistent_iff)
    then show ?thesis unfolding c(2) keep .
  qed
  have refs: "\<exists>c\<in>set (map ?g (chats s)). c_id c = k \<and> (user1_id c = u_id u \<or> user2_id c = u_id u)"
    if "u \<in> set (users s)" "current_chat_id u = Some k" for u k
  proof -
    from consistentD(2)[OF assms(1) that] obtain c where c: "c \<in> set (chats s)" "c_id c = k"
      "user1_id c = u_id u \<or> user2_id c = u_id u" by blast
    have "?g c \<in> set (map ?g (chats s))" using c(1) by (rule in_map)
    moreover have "c_id (?g c) = k \<and> (user1_id (?g c) = u_id u \<or> user2_id (?g c) = u_id u)"
      unfolding keep using c(2,3) by simp
    ultimately show ?thesis by blast
  qed
  show ?thesis
    unfolding consistent_iff chats' rest
    using assms(1) part refs by (simp add: consistent_iff)
qed

lemma sound_queue_only:
  assumes "schema_ok s" and "consistent s"
    and "users s' = users s" "chats s' = chats s" "messages s' = messages s" "history s' = history s"
    and "distinct (map q_id (queue_entries s'))" "distinct (map q_user_id (queue_entries s'))"
  shows "schema_ok s' \<and> consistent s'"
  using assms by (simp add: schema_ok_def consistent_iff)

lemma sound_remove_from_queue:
  assumes "schema_ok s" and "consistent s"
  shows "schema_ok (remove_from_queue s uid) \<and> consistent (remove_from_queue s uid)"
proof (rule sound_queue_only[OF assms])
  show "distinct (map q_id (queue_entries (remove_from_queue s uid)))"
    and "distinct (map q_user_id (queue_entries (remove_from_queue s uid)))"
    using assms(1) by (simp_all add: remove_from_queue_def schema_ok_def distinct_map_filter)
qed (simp_all add: remove_from_queue_def)

lemma sound_add_to_queue:
  assumes "schema_ok s" and "consistent s" and "add_to_queue now s usr role problem = Inr s'"
  shows "schema_ok s' \<and> consistent s'"
proof -
  from assms(1) have "distinct (map q_id (queue_entries s))"
    and "distinct (map q_user_id (queue_entries s))" by (simp_all add: schema_ok_def)
  from add_to_queue_step[OF this, of now usr role problem] assms(3)
  have "users s' = users s" "chats s' = chats s" "messages s' = messages s" "history s' = history s"
    "distinct (map q_id (queue_entries s'))" "distinct (map q_user_id (queue_entries s'))"
    by auto
  with assms(1,2) show ?thesis by (rule sound_queue_only)
qed

lemma sound_record_history:
  assumes "schema_ok s" and "consistent s" and "record_history now uid cid s = Inr s'"
  shows "schema_ok s' \<and> consistent s'"
proof -
  from assms(1,2) have "distinct (map h_id (history s))"
    and "distinct (map (\<lambda>h. (h_user_id h, h_chat_id h)) (history s))"
    by (simp_all add: schema_ok_def consistent_iff)
  from record_history_step[OF this, of now uid cid] assms(3)
  have "users s' = users s" "chats s' = chats s" "messages s' = messages s"
    "queue_entries s' = queue_entries s"
    "distinct (map h_id (history s'))"
    "distinct (map (\<lambda>h. (h_user_id h, h_chat_id h)) (history s'))"
    by auto
  with assms(1,2) show ?thesis by (simp add: schema_ok_def consistent_iff)
qed


lemma sound_create_chat:
  assumes ok: "schema_ok s" and co: "consistent s"
    and cc: "create_chat now s user1 user2 r p = (new_chat, s')"
    and u1: "u_id user1 \<in> u_id ` set (users s)" and u2: "u_id user2 \<in> u_id ` set (users s)"
    and ne: "u_id user1 \<noteq> u_id user2"
  shows "schema_ok s' \<and> consistent s'"
proof -
  note E = create_chat_effect[OF cc]
  note D = schema_okD[OF ok]
  let ?g = "\<lambda>u. if u_id u = u_id user1 \<or> u_id u = u_id user2
                 then u\<lparr>current_chat_id := Some (c_id new_chat)\<rparr> else u"
  have a: "map u_id (map ?g (users s)) = map u_id (users s)"
    by (rule map_key_preserved) simp
  have b: "map telegram_id (map ?g (users s)) = map telegram_id (users s)"
    by (rule map_key_preserved) simp
  have fresh: "c_id new_chat \<notin> set (map c_id (chats s))"
    unfolding E(2) by (rule next_id_fresh)
  have pos: "0 < c_id new_chat" unfolding E(2) by (rule next_id_positive)
  have dc: "distinct (map c_id (chats s @ [new_chat]))" using D(3) fresh by simp
  have pc: "\<forall>c\<in>set (chats s @ [new_chat]). 0 < c_id c" using D(4) pos by simp
  have schema: "schema_ok s'"
    unfolding schema_ok_def E(1) E(7) E(8) E(9) E(10) a b
    using D(1,2) dc pc D(5,6,7,8) by (intro conjI) assumption+
  have "set (map u_id (map ?g (users s))) = set (map u_id (users s))" by (simp only: a)
  then have ids: "u_id ` set (map ?g (users s)) = u_id ` set (users s)" by (simp only: set_map)
  have part: "user1_id c \<noteq> user2_id c \<and> user1_id c \<in> u_id ` set (users s') \<and>
              user2_id c \<in> u_id ` set (users s')"
    if "c \<in> set (chats s')" for c
  proof -
    from that have "c \<in> set (chats s) \<or> c = new_chat" by (auto simp: E(1))
    then show ?thesis
    proof
      assume "c \<in> set (chats s)"
      from consistentD(1)[OF co this] show ?thesis unfolding E(7) ids .
    next
      assume "c = new_chat"
      then show ?thesis using E(3,4) ne u1 u2 unfolding E(7) ids by simp
    qed
  qed
  have refs: "\<exists>c\<in>set (chats s'). c_id c = k \<and> (user1_id c = u_id u' \<or> user2_id c = u_id u')"
    if "u' \<in> set (users s')" "current_chat_id u' = Some k" for u' k
  proof -
    from that(1) have "u' \<in> set (map ?g (users s))" by (simp only: E(7))
    then obtain u where u: "u \<in> set (users s)" "u' = ?g u" by auto
    show ?thesis
    proof (cases "u_id u = u_id user1 \<or> u_id u = u_id user2")
      case True
      with u(2) that(2) have "k = c_id new_chat" and "u_id u' = u_id u" by auto
      with True E(3,4) have "c_id new_chat = k \<and>
          (user1_id new_chat = u_id u' \<or> user2_id new_chat = u_id u')" by auto
      moreover have "new_chat \<in> set (chats s')" by (simp add: E(1))
      ultimately show ?thesis by blast
    next
      case False
      with u(2) have same: "u' = u" by simp
      from consistentD(2)[OF co u(1)] that(2) same
      obtain c where "c \<in> set (chats s)" "c_id c = k"
        "user1_id c = u_id u' \<or> user2_id c = u_id u'" by blast
      then show ?thesis by (auto simp: E(1))
    qed
  qed
  have hist: "distinct (map (\<lambda>h. (h_user_id h, h_chat_id h)) (history s'))"
    unfolding E(9) by (rule consistentD(3)[OF co])
  have "consistent s'" using part refs hist by (rule consistentI)
  with schema show ?thesis by simp
qed

lemma sound_new_message:
  assumes "schema_ok s" and "consistent s"
  shows "schema_ok (s\<lparr>messages := messages s @ [\<lparr>m_id = next_id (map m_id (messages s)),
             m_chat_id = c, m_user_id = u, m_text = t, sent_at = now\<rparr>]\<rparr>) \<and>
         consistent (s\<lparr>messages := messages s @ [\<lparr>m_id = next_id (map m_id (messages s)),
             m_chat_id = c, m_user_id = u, m_text = t, sent_at = now\<rparr>]\<rparr>)"
  using assms next_id_fresh[of "map m_id (messages s)"]
  by (simp add: schema_ok_def consistent_iff)

lemma sound_handle_message:
  assumes "schema_ok s" and "consistent s"
  shows "schema_ok (db_of (handle_message check_profanity now tg txt s)) \<and>
         consistent (db_of (handle_message check_profanity now tg txt s))"
proof -
  have ban: "schema_ok (upd_user uid (\<lambda>u. u\<lparr>is_banned := True\<rparr>) s) \<and>
             consistent (upd_user uid (\<lambda>u. u\<lparr>is_banned := True\<rparr>) s)" for uid
    using schema_ok_upd_user[OF assms(1), of "\<lambda>u. u\<lparr>is_banned := True\<rparr>" uid]
      consistent_upd_user[OF assms(2), of "\<lambda>u. u\<lparr>is_banned := True\<rparr>" uid]
    by simp
  show ?thesis
    unfolding handle_message_def
    using assms ban sound_new_message[OF assms]
    by (simp add: Let_def split: sum.splits option.splits)
qed


lemma soundI: "schema_ok s \<and> consistent s \<Longrightarrow> sound s"
  by (simp add: sound_def)

lemma soundD: "sound s \<Longrightarrow> schema_ok s" "sound s \<Longrightarrow> consistent s"
  by (simp_all add: sound_def)

lemma sound_upd_user:
  assumes "sound s" and "\<And>u. u_id (f u) = u_id u" and "\<And>u. telegram_id (f u) = telegram_id u"
    and "\<And>u. current_chat_id (f u) = current_chat_id u \<or> current_chat_id (f u) = None"
  shows "sound (upd_user uid f s)"
  using schema_ok_upd_user[OF soundD(1)[OF assms(1)] assms(2,3)]
    consistent_upd_user[OF soundD(2)[OF assms(1)] assms(2,4)]
  by (simp add: sound_def)

lemma sound_upd_chat:
  assumes "sound s" and "\<And>c. c_id (f c) = c_id c"
    and "\<And>c. user1_id (f c) = user1_id c" and "\<And>c. user2_id (f c) = user2_id c"
  shows "sound (upd_chat cid f s)"
  using schema_ok_upd_chat[OF soundD(1)[OF assms(1)] assms(2)]
    consistent_upd_chat[OF soundD(2)[OF assms(1)] assms(2,3,4)]
  by (simp add: sound_def)

lemma scalar_one_Some: "scalar_one_or_none xs = Inr (Some x) \<Longrightarrow> xs = [x]"
  by (cases xs rule: scalar_one_or_none.cases) auto

lemma users_ids_upd_user:
  assumes "\<And>u. u_id (f u) = u_id u"
  shows "u_id ` set (users (upd_user uid f s)) = u_id ` set (users s)"
proof -
  have "map u_id (map (\<lambda>u. if u_id u = uid then f u else u) (users s)) = map u_id (users s)"
    by (rule map_key_preserved) (simp add: assms)
  then have "set (map u_id (users (upd_user uid f s))) = set (map u_id (users s))"
    by (simp only: users_upd_user)
  then show ?thesis by (simp only: set_map)
qed

lemma sound_menu_problem:
  assumes so: "sound s" and usr: "usr \<in> set (users s)"
  shows "sound (db_of (menu_problem clk s usr data))"
proof (cases "py_index (split_us data) 2")
  case (Inl e)
  then show ?thesis using so by (simp add: menu_problem_def)
next
  case (Inr role)
  let ?problem = "join_us (drop 3 (split_us data))"
  let ?f = "\<lambda>u. u\<lparr>current_role := Some role, current_problem := Some ?problem\<rparr>"
  let ?s1 = "upd_user (u_id usr) ?f s"
  have s1: "sound ?s1" by (rule sound_upd_user[OF so]) simp_all
  have ids1: "u_id ` set (users ?s1) = u_id ` set (users s)"
    by (rule users_ids_upd_user) simp
  show ?thesis
  proof (cases "add_to_queue (clk 0) ?s1 usr role ?problem")
    case (Inl e)
    then show ?thesis using Inr s1 by (simp add: menu_problem_def Let_def)
  next
    case add: (Inr s2)
    from sound_add_to_queue[OF soundD[OF s1] add] have s2: "sound s2" by (rule soundI)
    have ids2: "u_id ` set (users s2) = u_id ` set (users s)"
    proof -
      from s1 have "distinct (map q_id (queue_entries ?s1))"
        and "distinct (map q_user_id (queue_entries ?s1))"
        by (simp_all add: sound_def schema_ok_def)
      from add_to_queue_step[OF this, of "clk 0" usr role ?problem] add
      have "users s2 = users ?s1" by auto
      with ids1 show ?thesis by simp
    qed
    show ?thesis
    proof (cases "find_match s2 usr role ?problem")
      case None
      then show ?thesis using Inr add s2 by (simp add: menu_problem_def Let_def)
    next
      case (Some m)
      note C = find_match_is_candidate[OF Some]
      obtain new_chat s3 where cc: "create_chat (clk 1) s2 usr m role ?problem = (new_chat, s3)"
        by (cases "create_chat (clk 1) s2 usr m role ?problem")
      have "u_id usr \<in> u_id ` set (users s2)" using usr ids2 by blast
      moreover have "u_id m \<in> u_id ` set (users s2)" using C(1) by blast
      ultimately have "schema_ok s3 \<and> consistent s3"
        using sound_create_chat[OF soundD[OF s2] cc] C(2) by metis
      then have s3: "schema_ok s3" "consistent s3" by simp_all
      from sound_remove_from_queue[OF s3, of "u_id usr"]
      have s3': "schema_ok (remove_from_queue s3 (u_id usr))"
        "consistent (remove_from_queue s3 (u_id usr))" by simp_all
      from sound_remove_from_queue[OF s3', of "u_id m"]
      have "sound (remove_from_queue (remove_from_queue s3 (u_id usr)) (u_id m))"
        by (rule soundI)
      then show ?thesis using Inr add Some cc by (simp add: menu_problem_def Let_def)
    qed
  qed
qed


lemma sound_end_chat:
  assumes so: "sound s"
  shows "sound (db_of (end_chat clk s usr))"
proof (cases "truthy_ref (current_chat_id usr)")
  case None
  then show ?thesis using so by (simp add: end_chat_def)
next
  case ref: (Some chat_id)
  show ?thesis
  proof (cases "scalar_one_or_none (filter (\<lambda>c. c_id c = chat_id) (chats s))")
    case (Inl e)
    then show ?thesis using so ref by (simp add: end_chat_def)
  next
    case found: (Inr copt)
    show ?thesis
    proof (cases copt)
      case None
      then show ?thesis using so ref found by (simp add: end_chat_def)
    next
      case (Some cht)
      let ?clear = "\<lambda>u::user. u\<lparr>current_chat_id := None\<rparr>"
      let ?s1 = "upd_chat (c_id cht) (\<lambda>c. c\<lparr>is_active := False, ended_at := Some (clk 0)\<rparr>) s"
      let ?pid = "if user1_id cht = u_id usr then user2_id cht else user1_id cht"
      have s1: "sound ?s1" by (rule sound_upd_chat[OF so]) simp_all
      show ?thesis
      proof (cases "scalar_one_or_none (filter (\<lambda>u. u_id u = ?pid) (users ?s1))")
        case (Inl e)
        then show ?thesis using so ref found Some by (simp add: end_chat_def Let_def)
      next
        case pl: (Inr partner)
        let ?s2 = "case partner of Some p \<Rightarrow> upd_user (u_id p) ?clear ?s1 | None \<Rightarrow> ?s1"
        let ?notified = "case partner of
                           Some p \<Rightarrow> [Send_message (telegram_id p) Partner_ended_chat]
                         | None \<Rightarrow> []"
        let ?s3 = "upd_user (u_id usr) ?clear ?s2"
        have s2: "sound ?s2"
        proof (cases partner)
          case None
          then show ?thesis using s1 by simp
        next
          case (Some p)
          have "sound (upd_user (u_id p) ?clear ?s1)" by (rule sound_upd_user[OF s1]) simp_all
          with Some show ?thesis by simp
        qed
        have s3: "sound ?s3" by (rule sound_upd_user[OF s2]) simp_all
        have unfold: "end_chat clk s usr =
            (case record_history (clk 1) (u_id usr) (c_id cht) ?s3 of
               Inl e \<Rightarrow> Raised e s ?notified
             | Inr s4 \<Rightarrow>
                 (case partner of
                    None \<Rightarrow> Done s4 (?notified @ [Edit_message_text Chat_ended])
                  | Some p \<Rightarrow>
                      (case record_history (clk 2) (u_id p) (c_id cht) s4 of
                         Inl e \<Rightarrow> Raised e s ?notified
                       | Inr s5 \<Rightarrow> Done s5 (?notified @ [Edit_message_text Chat_ended]))))"
          using ref found Some pl by (simp add: end_chat_def Let_def)
        show ?thesis
        proof (cases "record_history (clk 1) (u_id usr) (c_id cht) ?s3")
          case (Inl e)
          then show ?thesis using so by (simp add: unfold)
        next
          case r1: (Inr s4)
          from sound_record_history[OF soundD[OF s3] r1] have s4: "sound s4" by (rule soundI)
          show ?thesis
          proof (cases partner)
            case None
            then show ?thesis using r1 s4 by (simp add: unfold)
          next
            case p: (Some p)
            show ?thesis
            proof (cases "record_history (clk 2) (u_id p) (c_id cht) s4")
              case (Inl e)
              then show ?thesis using r1 p so by (simp add: unfold)
            next
              case r2: (Inr s5)
              from sound_record_history[OF soundD[OF s4] r2] have "sound s5" by (rule soundI)
              then show ?thesis using r1 p r2 by (simp add: unfold)
            qed
          qed
        qed
      qed
    qed
  qed
qed

lemma db_of_show_chat_history: "db_of (show_chat_history s usr) = s"
  by (simp add: show_chat_history_def Let_def split: sum.splits)

lemma db_of_view_chat_history: "db_of (view_chat_history s usr chat_id) = s"
  by (simp add: view_chat_history_def Let_def split: sum.splits option.splits)

lemma sound_handle_callback:
  assumes so: "sound s"
  shows "sound (db_of (handle_callback clk tg data s))"
proof (cases "scalar_one_or_none (filter (\<lambda>u. telegram_id u = tg) (users s))")
  case (Inl e)
  then show ?thesis using so by (simp add: handle_callback_def)
next
  case (Inr found)
  show ?thesis
  proof (cases found)
    case None
    then show ?thesis using so Inr by (simp add: handle_callback_def)
  next
    case (Some usr)
    with Inr have "filter (\<lambda>u. telegram_id u = tg) (users s) = [usr]"
      by (simp add: scalar_one_Some)
    then have "usr \<in> set (filter (\<lambda>u. telegram_id u = tg) (users s))" by simp
    then have usr: "usr \<in> set (users s)" by simp
    show ?thesis
      using so Inr Some sound_menu_problem[OF so usr, of clk data] sound_end_chat[OF so, of clk usr]
      by (simp add: handle_callback_def db_of_show_chat_history db_of_view_chat_history
            show_main_menu_def split: sum.splits)
  qed
qed


lemma sound_sweep_step:
  assumes so: "sound (sw_db w)" and step: "sweep_step clk q w = Inr w'"
  shows "sound (sw_db w')"
proof (cases "q_user_id q \<in> processed_users w")
  case True
  with step so show ?thesis by (simp add: sweep_step_def)
next
  case False
  let ?db = "sw_db w"
  have rm: "sound (remove_from_queue ?db uid)" for uid
    using sound_remove_from_queue[OF soundD[OF so], of uid] by (rule soundI)
  show ?thesis
  proof (cases "scalar_one_or_none (filter (\<lambda>u. u_id u = q_user_id q) (users ?db))")
    case (Inl e)
    with step False show ?thesis by (simp add: sweep_step_def)
  next
    case found: (Inr uopt)
    show ?thesis
    proof (cases uopt)
      case None
      with step False found rm show ?thesis by (auto simp: sweep_step_def)
    next
      case (Some usr)
      with found have "filter (\<lambda>u. u_id u = q_user_id q) (users ?db) = [usr]"
        by (simp add: scalar_one_Some)
      then have "usr \<in> set (filter (\<lambda>u. u_id u = q_user_id q) (users ?db))" by simp
      then have usr: "usr \<in> set (users ?db)" by simp
      show ?thesis
      proof (cases "is_banned usr \<or> truthy_ref (current_chat_id usr) \<noteq> None")
        case True
        with step False found Some rm show ?thesis by (auto simp: sweep_step_def)
      next
        case ok: False
        show ?thesis
        proof (cases "find_match ?db usr (q_role q) (q_problem_type q)")
          case None
          with step False found Some ok so show ?thesis by (auto simp: sweep_step_def)
        next
          case fm: (Some m)
          note C = find_match_is_candidate[OF fm]
          show ?thesis
          proof (cases "scalar_one_or_none (filter (\<lambda>u. u_id u = u_id m) (users ?db))")
            case (Inl e)
            with step False found Some ok fm show ?thesis by (simp add: sweep_step_def)
          next
            case ml: (Inr mopt)
            show ?thesis
            proof (cases mopt)
              case None
              with step False found Some ok fm ml so show ?thesis by (auto simp: sweep_step_def)
            next
              case mu: (Some match_user)
              with ml have "filter (\<lambda>u. u_id u = u_id m) (users ?db) = [match_user]"
                by (simp add: scalar_one_Some)
              then have "match_user \<in> set (filter (\<lambda>u. u_id u = u_id m) (users ?db))" by simp
              then have m': "match_user \<in> set (users ?db)" "u_id match_user = u_id m" by simp_all
              show ?thesis
              proof (cases "truthy_ref (current_chat_id match_user) \<noteq> None")
                case True
                with step False found Some ok fm ml mu so show ?thesis
                  by (auto simp: sweep_step_def)
              next
                case free: False
                obtain new_chat s1 where cc:
                  "create_chat (clk (sw_ticks w)) ?db usr match_user (q_role q) (q_problem_type q)
                     = (new_chat, s1)"
                  by (cases "create_chat (clk (sw_ticks w)) ?db usr match_user (q_role q)
                               (q_problem_type q)")
                have "u_id usr \<in> u_id ` set (users ?db)" using usr by blast
                moreover have "u_id match_user \<in> u_id ` set (users ?db)" using m'(1) by blast
                moreover have "u_id usr \<noteq> u_id match_user" using C(2) m'(2) by simp
                ultimately have "schema_ok s1 \<and> consistent s1"
                  using sound_create_chat[OF soundD[OF so] cc] by metis
                then have s1: "schema_ok s1" "consistent s1" by simp_all
                from sound_remove_from_queue[OF s1, of "u_id usr"]
                have s1': "schema_ok (remove_from_queue s1 (u_id usr))"
                  "consistent (remove_from_queue s1 (u_id usr))" by simp_all
                from sound_remove_from_queue[OF s1', of "u_id match_user"]
                have "sound (remove_from_queue (remove_from_queue s1 (u_id usr)) (u_id match_user))"
                  by (rule soundI)
                with step False found Some ok fm ml mu free cc show ?thesis
                  by (auto simp: sweep_step_def)
              qed
            qed
          qed
        qed
      qed
    qed
  qed
qed

lemma sound_sweep_loop:
  "sound (sw_db w) \<Longrightarrow> sound (sw_db (snd (sweep_loop clk qs w)))"
proof (induction qs arbitrary: w)
  case Nil
  then show ?case by simp
next
  case (Cons q qs)
  show ?case
  proof (cases "sweep_step clk q w")
    case (Inl e)
    with Cons.prems show ?thesis by simp
  next
    case (Inr w1)
    from sound_sweep_step[OF Cons.prems Inr] have "sound (sw_db w1)" .
    from Cons.IH[OF this] Inr show ?thesis by simp
  qed
qed

lemma sound_periodic_matchmaking_task:
  assumes "sound s"
  shows "sound (fst (periodic_matchmaking_task clk s))"
proof -
  let ?w0 = "\<lparr>sw_db = s, processed_users = {}, sw_ticks = 0, sw_sent = []\<rparr>"
  have "sound (sw_db (snd (sweep_loop clk (queue_entries s) ?w0)))"
    by (rule sound_sweep_loop) (simp add: assms)
  then show ?thesis
    by (cases "sweep_loop clk (queue_entries s) ?w0") (simp add: periodic_matchmaking_task_def)
qed

lemma sound_references:
  assumes "sound s" and "u \<in> set (users s)"
  shows "current_chat_id u \<noteq> Some 0"
proof
  assume "current_chat_id u = Some 0"
  from consistentD(2)[OF soundD(2)[OF assms(1)] assms(2) this]
  obtain c where "c \<in> set (chats s)" "c_id c = 0" by blast
  with schema_okD(4)[OF soundD(1)[OF assms(1)]] show False by auto
qed

lemma sound_handle_message':
  "sound s \<Longrightarrow> sound (db_of (handle_message check_profanity now tg txt s))"
  using sound_handle_message by (simp add: sound_def)

text \<open>
  The other writes of the source are those of the onboarding conversation.
  \<^verbatim>\<open>handle_problem_selection\<close> (lines 181-203) stores the choice, queues,
  searches and creates the chat through the same calls, in the same order, as
  the find-partner branch of the router. \<^verbatim>\<open>handle_age\<close> inserts a row
  (lines 104-111): a user with a new id, no current chat, and an external
  identifier that the unique constraint keeps apart from the stored ones.
\<close>

lemma sound_new_user:
  assumes "sound s" and "telegram_id u \<notin> telegram_id ` set (users s)"
    and "u_id u = next_id (map u_id (users s))" and "current_chat_id u = None"
  shows "sound (s\<lparr>users := users s @ [u]\<rparr>)"
proof -
  have "u_id u \<notin> u_id ` set (users s)"
    using next_id_fresh[of "map u_id (users s)"] assms(3) by simp
  with assms(1,2,4) show ?thesis
    by (auto simp: sound_def schema_ok_def consistent_iff)
qed

text \<open>The concrete states that stand for states of a running bot are sound.\<close>

lemma sound_busy_db: "sound busy_db"
  by (simp add: sound_def schema_ok_def consistent_def busy_db_def mk_user_def mk_chat_def
        mk_entry_def)

lemma sound_registered_db: "sound registered_db"
  by (simp add: sound_def schema_ok_def consistent_def registered_db_def mk_user_def)

lemma sound_rematch_db: "sound rematch_db"
  by (simp add: sound_def schema_ok_def consistent_def rematch_db_def fixture_defs)

lemma sound_banned_db: "sound banned_db"
  by (simp add: sound_def schema_ok_def consistent_def banned_db_def fixture_defs)

lemma sound_veteran_db: "sound veteran_db"
  by (simp add: sound_def schema_ok_def consistent_def veteran_db_def mk_history_def fixture_defs)

lemma sound_stale_queue_db: "sound stale_queue_db"
  by (simp add: sound_def schema_ok_def consistent_def stale_queue_db_def fixture_defs)

section \<open>The claims\<close>

subsection \<open>Age bands\<close>

text \<open>
  Claim C3. The age-compatibility function returns the band of the table for
  each of the ages 14 to 18, and the band [14, 18] for every other integer.
\<close>

theorem get_age_range_table:
  "get_age_range 14 = (14, 16) \<and> get_age_range 15 = (14, 17) \<and>
   get_age_range 16 = (14, 18) \<and> get_age_range 17 = (15, 18) \<and>
   get_age_range 18 = (16, 18) \<and>
   (\<forall>a. a \<notin> {14, 15, 16, 17, 18} \<longrightarrow> get_age_range a = (14, 18))"
  by (simp add: get_age_range_def MIN_AGE_def MAX_AGE_def)

theorem get_age_range_table_witness:
  "(20::int) \<notin> {14, 15, 16, 17, 18} \<and> get_age_range 20 = (14, 18) \<and>
   get_age_range 14 = (14, 16)"
  using get_age_range_table by simp

subsection \<open>Moderation\<close>

text \<open>
  Claim C1. A profane message from a registered user who is not banned sets the
  sender's banned flag, stores no message, sends nothing but the permanent-ban
  notice to the sender, and every later message of that sender, whatever its
  text and whatever the predicate says of it, is refused with the database
  untouched; the same refusal meets every message of a user already banned.
\<close>

theorem profane_message_bans_sender:
  assumes "schema_ok s" and "usr \<in> set (users s)" and "telegram_id usr = tg"
  shows "(\<not> is_banned usr \<and> check_profanity txt \<longrightarrow>
            (\<exists>s'. handle_message check_profanity now tg txt s = Done s' [Reply_text Permanent_ban]
               \<and> usr\<lparr>is_banned := True\<rparr> \<in> set (users s')
               \<and> (\<forall>u\<in>set (users s'). telegram_id u = tg \<longrightarrow> is_banned u)
               \<and> messages s' = messages s
               \<and> (\<forall>cp' now' txt'. handle_message cp' now' tg txt' s' = Done s' [Reply_text Blocked])))
       \<and> (is_banned usr \<longrightarrow>
            (\<forall>cp' now' txt'. handle_message cp' now' tg txt' s = Done s [Reply_text Blocked]))"
proof -
  have look: "filter (\<lambda>u. telegram_id u = tg) (users s) = [usr]"
    using assms lookup_by_telegram_id by blast
  let ?s' = "upd_user (u_id usr) (\<lambda>u. u\<lparr>is_banned := True\<rparr>) s"
  have look': "filter (\<lambda>u. telegram_id u = tg) (users ?s') = [usr\<lparr>is_banned := True\<rparr>]"
    using look by (rule lookup_after_ban)
  have refused: "handle_message cp' now' tg txt' ?s' = Done ?s' [Reply_text Blocked]"
    for cp' now' txt'
    by (simp add: handle_message_def look')
  have in_users: "usr\<lparr>is_banned := True\<rparr> \<in> set (users ?s')"
  proof -
    have "usr\<lparr>is_banned := True\<rparr> \<in> set (filter (\<lambda>u. telegram_id u = tg) (users ?s'))"
      by (simp only: look') simp
    then show ?thesis by simp
  qed
  have all_banned: "\<forall>u\<in>set (users ?s'). telegram_id u = tg \<longrightarrow> is_banned u"
  proof (intro ballI impI)
    fix u assume "u \<in> set (users ?s')" and "telegram_id u = tg"
    then have "u \<in> set (filter (\<lambda>u. telegram_id u = tg) (users ?s'))" by simp
    then show "is_banned u" by (simp only: look') simp
  qed
  have msgs: "messages ?s' = messages s" by (simp add: upd_user_def)
  have ban: "\<not> is_banned usr \<Longrightarrow> check_profanity txt \<Longrightarrow>
             handle_message check_profanity now tg txt s = Done ?s' [Reply_text Permanent_ban]"
    by (simp add: handle_message_def look)
  have old: "is_banned usr \<Longrightarrow> handle_message cp' now' tg txt' s = Done s [Reply_text Blocked]"
    for cp' now' txt'
    by (simp add: handle_message_def look)
  show ?thesis
    using ban refused in_users all_banned msgs old by blast
qed


theorem profane_message_bans_sender_witness:
  "schema_ok paired_db \<and> mk_user 1 101 16 False (Some 1) \<in> set (users paired_db) \<and>
   \<not> is_banned (mk_user 1 101 16 False (Some 1)) \<and>
   (\<exists>s'. handle_message (\<lambda>t. t = ''bad'') 30 101 ''bad'' paired_db = Done s' [Reply_text Permanent_ban]
      \<and> messages s' = [] \<and> handle_message (\<lambda>t. False) 31 101 ''hello'' s' = Done s' [Reply_text Blocked]) \<and>
   mk_user 3 103 15 True None \<in> set (users paired_db) \<and>
   handle_message (\<lambda>t. False) 31 103 ''hello'' paired_db = Done paired_db [Reply_text Blocked]"
proof -
  have u1: "mk_user 1 101 16 False (Some 1) \<in> set (users paired_db)"
    and u3: "mk_user 3 103 15 True None \<in> set (users paired_db)"
    by (simp_all add: paired_db_def)
  have t1: "telegram_id (mk_user 1 101 16 False (Some 1)) = 101"
    and t3: "telegram_id (mk_user 3 103 15 True None) = 103"
    and b1: "\<not> is_banned (mk_user 1 101 16 False (Some 1))"
    and b3: "is_banned (mk_user 3 103 15 True None)"
    by (simp_all add: mk_user_def)
  have m: "messages paired_db = []" by (simp add: paired_db_def)
  from profane_message_bans_sender[OF schema_ok_paired_db u1 t1, of "\<lambda>t. t = ''bad''" "''bad''" 30] b1 m
  have A: "\<exists>s'. handle_message (\<lambda>t. t = ''bad'') 30 101 ''bad'' paired_db = Done s' [Reply_text Permanent_ban]
      \<and> messages s' = [] \<and> handle_message (\<lambda>t. False) 31 101 ''hello'' s' = Done s' [Reply_text Blocked]"
    by auto
  from profane_message_bans_sender[OF schema_ok_paired_db u3 t3] b3
  have B: "handle_message (\<lambda>t. False) 31 103 ''hello'' paired_db = Done paired_db [Reply_text Blocked]"
    by blast
  show ?thesis using schema_ok_paired_db u1 u3 b1 A B by blast
qed

subsection \<open>Relay\<close>

text \<open>
  Claim C7. A message that is not profane, from a registered user who is not
  banned and whose current chat is active with a stored partner, adds exactly
  one message row (that chat, the sender, the text as given) and is sent once,
  to the partner's external identifier, which is not the sender's when the
  chat's two participants differ, as they do in every consistent state. If
  the referenced chat is missing or
  inactive, or the partner is not stored, the sender gets an error text and
  nothing is stored or forwarded.
\<close>

theorem relay_reaches_partner_only:
  assumes "schema_ok s" and "usr \<in> set (users s)" and "telegram_id usr = tg"
    and "\<not> is_banned usr" and "\<not> check_profanity txt"
  shows "(\<forall>cht partner.
            cht \<in> set (chats s) \<and> current_chat_id usr = Some (c_id cht) \<and> is_active cht \<and>
            partner \<in> set (users s) \<and> u_id partner = other_participant cht (u_id usr) \<longrightarrow>
              handle_message check_profanity now tg txt s =
                Done (s\<lparr>messages := messages s @
                          [\<lparr>m_id = next_id (map m_id (messages s)), m_chat_id = c_id cht,
                            m_user_id = u_id usr, m_text = txt, sent_at = now\<rparr>]\<rparr>)
                     [Send_message (telegram_id partner) (Verbatim txt)]
              \<and> (user1_id cht \<noteq> user2_id cht \<or> consistent s \<longrightarrow> telegram_id partner \<noteq> tg))
       \<and> (\<forall>cid. current_chat_id usr = Some cid \<and> cid \<noteq> 0 \<and>
                 (\<forall>c\<in>set (chats s). c_id c = cid \<longrightarrow> \<not> is_active c) \<longrightarrow>
              handle_message check_profanity now tg txt s = Done s [Reply_text Chat_not_active])
       \<and> (\<forall>cht. cht \<in> set (chats s) \<and> current_chat_id usr = Some (c_id cht) \<and> is_active cht \<and>
                 (\<forall>p\<in>set (users s). u_id p \<noteq> other_participant cht (u_id usr)) \<longrightarrow>
              handle_message check_profanity now tg txt s = Done s [Reply_text Partner_not_found])"
proof -
  have look: "filter (\<lambda>u. telegram_id u = tg) (users s) = [usr]"
    using assms lookup_by_telegram_id by blast
  have pos: "\<And>c. c \<in> set (chats s) \<Longrightarrow> c_id c \<noteq> 0"
    using assms(1) by (auto simp: schema_ok_def)
  have A: "handle_message check_profanity now tg txt s =
                Done (s\<lparr>messages := messages s @
                          [\<lparr>m_id = next_id (map m_id (messages s)), m_chat_id = c_id cht,
                            m_user_id = u_id usr, m_text = txt, sent_at = now\<rparr>]\<rparr>)
                     [Send_message (telegram_id partner) (Verbatim txt)]
              \<and> (user1_id cht \<noteq> user2_id cht \<or> consistent s \<longrightarrow> telegram_id partner \<noteq> tg)"
    if h: "cht \<in> set (chats s)" "current_chat_id usr = Some (c_id cht)" "is_active cht"
          "partner \<in> set (users s)" "u_id partner = other_participant cht (u_id usr)"
    for cht partner
  proof -
    have c: "filter (\<lambda>c. c_id c = c_id cht) (chats s) = [cht]"
      using assms(1) h(1) by (rule lookup_by_c_id)
    have p: "filter (\<lambda>u. u_id u = other_participant cht (u_id usr)) (users s) = [partner]"
      using lookup_by_u_id[OF assms(1) h(4)] h(5) by simp
    have run: "handle_message check_profanity now tg txt s =
                Done (s\<lparr>messages := messages s @
                          [\<lparr>m_id = next_id (map m_id (messages s)), m_chat_id = c_id cht,
                            m_user_id = u_id usr, m_text = txt, sent_at = now\<rparr>]\<rparr>)
                     [Send_message (telegram_id partner) (Verbatim txt)]"
      using assms(4,5) h(2,3) pos[OF h(1)] p
      by (simp add: handle_message_def look truthy_ref_def c other_participant_def)
    have other: "telegram_id partner \<noteq> tg" if "user1_id cht \<noteq> user2_id cht \<or> consistent s"
    proof
      from that consistentD(1)[OF _ h(1)] have d: "user1_id cht \<noteq> user2_id cht" by blast
      assume "telegram_id partner = tg"
      then have "partner \<in> set (filter (\<lambda>u. telegram_id u = tg) (users s))"
        using h(4) by simp
      then have "partner = usr" by (simp only: look) simp
      with h(5) d show False by (simp add: other_participant_def split: if_splits)
    qed
    from run other show ?thesis by blast
  qed
  have B: "handle_message check_profanity now tg txt s = Done s [Reply_text Chat_not_active]"
    if h: "current_chat_id usr = Some cid" "cid \<noteq> 0"
          "\<forall>c\<in>set (chats s). c_id c = cid \<longrightarrow> \<not> is_active c"
    for cid
  proof -
    from filter_key_cases[of c_id "chats s" cid] assms(1)
    consider "filter (\<lambda>c. c_id c = cid) (chats s) = []"
      | c where "c \<in> set (chats s)" "c_id c = cid" "filter (\<lambda>c. c_id c = cid) (chats s) = [c]"
      by (auto simp: schema_ok_def)
    then show ?thesis
    proof cases
      case 1
      then show ?thesis using assms(4,5) h(1,2)
        by (simp add: handle_message_def look truthy_ref_def)
    next
      case 2
      with h(3) have "\<not> is_active c" by blast
      with 2 show ?thesis using assms(4,5) h(1,2)
        by (simp add: handle_message_def look truthy_ref_def)
    qed
  qed
  have C: "handle_message check_profanity now tg txt s = Done s [Reply_text Partner_not_found]"
    if h: "cht \<in> set (chats s)" "current_chat_id usr = Some (c_id cht)" "is_active cht"
          "\<forall>p\<in>set (users s). u_id p \<noteq> other_participant cht (u_id usr)"
    for cht
  proof -
    have c: "filter (\<lambda>c. c_id c = c_id cht) (chats s) = [cht]"
      using assms(1) h(1) by (rule lookup_by_c_id)
    have p: "filter (\<lambda>u. u_id u = other_participant cht (u_id usr)) (users s) = []"
      using h(4) by (simp add: filter_empty_conv)
    show ?thesis
      using assms(4,5) h(2,3) pos[OF h(1)] p
      by (simp add: handle_message_def look truthy_ref_def c other_participant_def)
  qed
  show ?thesis using A B C by blast
qed


theorem relay_reaches_partner_only_witness:
  "schema_ok paired_db \<and> mk_user 1 101 16 False (Some 1) \<in> set (users paired_db) \<and>
   \<not> is_banned (mk_user 1 101 16 False (Some 1)) \<and> \<not> (\<lambda>t. t = ''bad'') ''hello'' \<and>
   mk_chat 1 1 2 True \<in> set (chats paired_db) \<and> is_active (mk_chat 1 1 2 True) \<and>
   mk_user 2 102 17 False (Some 1) \<in> set (users paired_db) \<and>
   handle_message (\<lambda>t. t = ''bad'') 30 101 ''hello'' paired_db =
     Done (paired_db\<lparr>messages :=
             [\<lparr>m_id = 1, m_chat_id = 1, m_user_id = 1, m_text = ''hello'', sent_at = 30\<rparr>]\<rparr>)
          [Send_message 102 (Verbatim ''hello'')] \<and>
   mk_user 4 104 18 False (Some 7) \<in> set (users paired_db) \<and>
   handle_message (\<lambda>t. t = ''bad'') 30 104 ''hello'' paired_db =
     Done paired_db [Reply_text Chat_not_active]"
proof -
  have u1: "mk_user 1 101 16 False (Some 1) \<in> set (users paired_db)"
    and u2: "mk_user 2 102 17 False (Some 1) \<in> set (users paired_db)"
    and u4: "mk_user 4 104 18 False (Some 7) \<in> set (users paired_db)"
    and c1: "mk_chat 1 1 2 True \<in> set (chats paired_db)"
    by (simp_all add: paired_db_def)
  have t1: "telegram_id (mk_user 1 101 16 False (Some 1)) = 101"
    and t4: "telegram_id (mk_user 4 104 18 False (Some 7)) = 104"
    and b1: "\<not> is_banned (mk_user 1 101 16 False (Some 1))"
    and b4: "\<not> is_banned (mk_user 4 104 18 False (Some 7))"
    by (simp_all add: mk_user_def)
  have np: "\<not> (\<lambda>t. t = ''bad'') ''hello''" by simp
  have act: "is_active (mk_chat 1 1 2 True)" by (simp add: mk_chat_def)
  note T1 = relay_reaches_partner_only[of paired_db "mk_user 1 101 16 False (Some 1)" 101
        "\<lambda>t. t = ''bad''" "''hello''" 30, OF schema_ok_paired_db u1 t1 b1 np]
  have r1: "current_chat_id (mk_user 1 101 16 False (Some 1)) = Some (c_id (mk_chat 1 1 2 True))"
    and p1: "u_id (mk_user 2 102 17 False (Some 1)) =
             other_participant (mk_chat 1 1 2 True) (u_id (mk_user 1 101 16 False (Some 1)))"
    by (simp_all add: mk_user_def mk_chat_def other_participant_def)
  from T1 c1 r1 act u2 p1
  have "handle_message (\<lambda>t. t = ''bad'') 30 101 ''hello'' paired_db =
          Done (paired_db\<lparr>messages := messages paired_db @
                  [\<lparr>m_id = next_id (map m_id (messages paired_db)),
                    m_chat_id = c_id (mk_chat 1 1 2 True),
                    m_user_id = u_id (mk_user 1 101 16 False (Some 1)),
                    m_text = ''hello'', sent_at = 30\<rparr>]\<rparr>)
               [Send_message (telegram_id (mk_user 2 102 17 False (Some 1))) (Verbatim ''hello'')]"
    by blast
  then have A: "handle_message (\<lambda>t. t = ''bad'') 30 101 ''hello'' paired_db =
     Done (paired_db\<lparr>messages :=
             [\<lparr>m_id = 1, m_chat_id = 1, m_user_id = 1, m_text = ''hello'', sent_at = 30\<rparr>]\<rparr>)
          [Send_message 102 (Verbatim ''hello'')]"
    by (simp add: paired_db_def mk_user_def mk_chat_def next_id_def)
  note T4 = relay_reaches_partner_only[of paired_db "mk_user 4 104 18 False (Some 7)" 104
        "\<lambda>t. t = ''bad''" "''hello''" 30, OF schema_ok_paired_db u4 t4 b4 np]
  have r4: "current_chat_id (mk_user 4 104 18 False (Some 7)) = Some 7 \<and> (7::int) \<noteq> 0 \<and>
            (\<forall>c\<in>set (chats paired_db). c_id c = 7 \<longrightarrow> \<not> is_active c)"
    by (simp add: mk_user_def mk_chat_def paired_db_def)
  from T4 r4
  have B: "handle_message (\<lambda>t. t = ''bad'') 30 104 ''hello'' paired_db =
     Done paired_db [Reply_text Chat_not_active]"
    by blast
  show ?thesis using schema_ok_paired_db u1 u2 u4 c1 b1 np act A B by blast
qed

subsection \<open>Queue admission\<close>

text \<open>
  Claim C6. Admitting the same user twice, with any roles, topics and ages,
  leaves exactly one queue entry of that user; it carries the role, the topic
  and the age of the second admission and the second admission's instant as
  its joined timestamp (the first admission had set the first instant). The
  entries of other users are as before, so when they all joined before the
  second instant the user's entry is the last in the order by joined timestamp.
\<close>

theorem add_to_queue_twice_one_entry:
  assumes "schema_ok s" and "u_id usr2 = u_id usr1"
  shows "\<exists>s1 s2 e1 e2.
           add_to_queue t1 s usr1 r1 p1 = Inr s1 \<and>
           filter (\<lambda>q. q_user_id q = u_id usr1) (queue_entries s1) = [e1] \<and> joined_at e1 = t1 \<and>
           add_to_queue t2 s1 usr2 r2 p2 = Inr s2 \<and>
           filter (\<lambda>q. q_user_id q = u_id usr1) (queue_entries s2) = [e2] \<and>
           q_role e2 = r2 \<and> q_problem_type e2 = p2 \<and> q_age e2 = age usr2 \<and> joined_at e2 = t2 \<and>
           filter (\<lambda>q. q_user_id q \<noteq> u_id usr1) (queue_entries s2) =
             filter (\<lambda>q. q_user_id q \<noteq> u_id usr1) (queue_entries s) \<and>
           ((\<forall>q\<in>set (queue_entries s). q_user_id q \<noteq> u_id usr1 \<longrightarrow> joined_at q < t2) \<longrightarrow>
              last (sort_key joined_at (queue_entries s2)) = e2)"
proof -
  let ?uid = "u_id usr1"
  from assms(1) have dq: "distinct (map q_id (queue_entries s))"
    and du: "distinct (map q_user_id (queue_entries s))"
    by (simp_all add: schema_ok_def)
  from add_to_queue_step[OF dq du, of t1 usr1 r1 p1]
  obtain s1 e1 where first: "add_to_queue t1 s usr1 r1 p1 = Inr s1"
    and f1: "filter (\<lambda>q. q_user_id q = ?uid) (queue_entries s1) = [e1]" "joined_at e1 = t1"
    and dq1: "distinct (map q_id (queue_entries s1))"
    and du1: "distinct (map q_user_id (queue_entries s1))"
    and o1: "filter (\<lambda>q. q_user_id q \<noteq> ?uid) (queue_entries s1) =
             filter (\<lambda>q. q_user_id q \<noteq> ?uid) (queue_entries s)"
    by blast
  from add_to_queue_step[OF dq1 du1, of t2 usr2 r2 p2] assms(2)
  obtain s2 e2 where second: "add_to_queue t2 s1 usr2 r2 p2 = Inr s2"
    and f2: "filter (\<lambda>q. q_user_id q = ?uid) (queue_entries s2) = [e2]"
    and vals: "q_role e2 = r2" "q_problem_type e2 = p2" "q_age e2 = age usr2" "joined_at e2 = t2"
    and o2: "filter (\<lambda>q. q_user_id q \<noteq> ?uid) (queue_entries s2) =
             filter (\<lambda>q. q_user_id q \<noteq> ?uid) (queue_entries s1)"
    by auto
  have at_back: "last (sort_key joined_at (queue_entries s2)) = e2"
    if older: "\<forall>q\<in>set (queue_entries s). q_user_id q \<noteq> ?uid \<longrightarrow> joined_at q < t2"
  proof (rule last_sort_key_greatest)
    have "e2 \<in> set (filter (\<lambda>q. q_user_id q = ?uid) (queue_entries s2))"
      by (simp only: f2) simp
    then show "e2 \<in> set (queue_entries s2)" by simp
  next
    fix x assume x: "x \<in> set (queue_entries s2)" "x \<noteq> e2"
    have "q_user_id x \<noteq> ?uid"
    proof
      assume "q_user_id x = ?uid"
      with x(1) have "x \<in> set (filter (\<lambda>q. q_user_id q = ?uid) (queue_entries s2))" by simp
      then have "x = e2" by (simp only: f2) simp
      with x(2) show False by simp
    qed
    with x(1) have "x \<in> set (filter (\<lambda>q. q_user_id q \<noteq> ?uid) (queue_entries s2))" by simp
    then have "x \<in> set (filter (\<lambda>q. q_user_id q \<noteq> ?uid) (queue_entries s))"
      by (simp only: o2 o1)
    with older have "joined_at x < t2" by simp
    then show "joined_at x < joined_at e2" by (simp add: vals)
  qed
  show ?thesis
    using first f1 second f2 vals o1 o2 at_back by (intro exI[of _ s1] exI[of _ s2] exI[of _ e1] exI[of _ e2]) simp
qed

theorem add_to_queue_twice_one_entry_witness:
  "schema_ok waiting_db \<and>
   u_id (mk_user 1 101 17 False None) = u_id (mk_user 1 101 16 False None) \<and>
   queue_entries waiting_db = [mk_entry 1 2 ''support'' ''study'' 17 5] \<and>
   joined_at (mk_entry 1 2 ''support'' ''study'' 17 5) < 20 \<and>
   (\<exists>s1 s2 e2.
      add_to_queue 10 waiting_db (mk_user 1 101 16 False None) ''support'' ''study'' = Inr s1 \<and>
      add_to_queue 20 s1 (mk_user 1 101 17 False None) ''receive'' ''friends'' = Inr s2 \<and>
      filter (\<lambda>q. q_user_id q = 1) (queue_entries s2) = [e2] \<and>
      q_role e2 = ''receive'' \<and> q_problem_type e2 = ''friends'' \<and> q_age e2 = 17 \<and>
      joined_at e2 = 20 \<and> last (sort_key joined_at (queue_entries s2)) = e2)"
proof -
  have same: "u_id (mk_user 1 101 17 False None) = u_id (mk_user 1 101 16 False None)"
    by (simp add: mk_user_def)
  have older: "\<forall>q\<in>set (queue_entries waiting_db). q_user_id q \<noteq> 1 \<longrightarrow> joined_at q < 20"
    by (simp add: waiting_db_def mk_entry_def)
  have uid: "u_id (mk_user 1 101 16 False None) = 1" and a: "age (mk_user 1 101 17 False None) = 17"
    by (simp_all add: mk_user_def)
  from add_to_queue_twice_one_entry[OF schema_ok_waiting_db same, of 10 "''support''" "''study''"
      20 "''receive''" "''friends''"] older
  have "\<exists>s1 s2 e2.
      add_to_queue 10 waiting_db (mk_user 1 101 16 False None) ''support'' ''study'' = Inr s1 \<and>
      add_to_queue 20 s1 (mk_user 1 101 17 False None) ''receive'' ''friends'' = Inr s2 \<and>
      filter (\<lambda>q. q_user_id q = 1) (queue_entries s2) = [e2] \<and>
      q_role e2 = ''receive'' \<and> q_problem_type e2 = ''friends'' \<and> q_age e2 = 17 \<and>
      joined_at e2 = 20 \<and> last (sort_key joined_at (queue_entries s2)) = e2"
    unfolding uid a by blast
  moreover have "queue_entries waiting_db = [mk_entry 1 2 ''support'' ''study'' 17 5]"
    and "joined_at (mk_entry 1 2 ''support'' ''study'' 17 5) < 20"
    by (simp_all add: waiting_db_def mk_entry_def)
  ultimately show ?thesis using schema_ok_waiting_db same by blast
qed

subsection \<open>Match search\<close>

text \<open>
  On the spec's two roles the opposite that \<^verbatim>\<open>find_match\<close> computes (line 270) is
  the spec's.
\<close>

lemma opposite_role_spec:
  "opposite_role (spec_role_name r) = spec_role_name (spec_opposite_role r)"
  by (cases r) (simp_all add: opposite_role_def)

text \<open>
  The handlers pass a role that is not one of the two. The role they hand to
  \<^verbatim>\<open>add_to_queue\<close> and \<^verbatim>\<open>find_match\<close> is a piece of the payload split at
  underscores (lines 142, 446 and 459), and for the button that asks for
  support this piece is \<^verbatim>\<open>receive\<close>. For every role other than \<^verbatim>\<open>support\<close> the
  search looks at the entries of role \<^verbatim>\<open>support\<close>; for the role \<^verbatim>\<open>support\<close> it
  looks at the entries of role \<^verbatim>\<open>receive_support\<close> and so at no entry queued
  with the role \<^verbatim>\<open>receive\<close>.
\<close>

lemma menu_role_receive_support_piece:
  "py_index (split_us ''menu_role_receive_support'') 2 = Inr ''receive''"
  by (simp add: py_index_def)

lemma match_query_other_role:
  assumes "role \<noteq> ''support''"
  shows "set (match_query s usr role problem) = {(q, u). candidate s usr ''support'' problem q u}"
  using assms by (simp only: set_match_query opposite_role_def if_False)

lemma match_query_support_skips_receive:
  assumes "(q, u) \<in> set (match_query s usr ''support'' problem)"
  shows "q_role q = ''receive_support''" and "q_role q \<noteq> ''receive''"
  using assms by (simp_all add: set_match_query opposite_role_def candidate_def)

text \<open>
  Claim C2. For each of the two roles, with the opposite role as the spec
  pairs them (support with receive_support), the rows find_match looks at are
  exactly the queue entries joined with their entrants where the entrant is
  another user, the entry has the opposite role and the same topic, the
  entrant's age lies in the requester's band, and the entrant is neither
  banned nor in a chat; they are ordered by joined timestamp. A user that
  find_match returns is such an entrant with the earliest joined timestamp,
  and the requester's age lies in that user's band. It returns nothing exactly
  when no candidate passes both age checks.
\<close>

theorem find_match_oldest_reciprocal_candidate:
  "set (match_query s usr (spec_role_name r) problem) =
     {(q, u). candidate s usr (spec_role_name (spec_opposite_role r)) problem q u} \<and>
   sorted (map (\<lambda>(q, u). joined_at q) (match_query s usr (spec_role_name r) problem)) \<and>
   (\<forall>m. find_match s usr (spec_role_name r) problem = Some m \<longrightarrow>
      (\<exists>q. candidate s usr (spec_role_name (spec_opposite_role r)) problem q m \<and>
           (\<forall>q' u'. candidate s usr (spec_role_name (spec_opposite_role r)) problem q' u' \<longrightarrow>
              joined_at q \<le> joined_at q')) \<and>
      in_band (age usr) (age m)) \<and>
   (find_match s usr (spec_role_name r) problem = None \<longleftrightarrow>
      \<not> (\<exists>q u. candidate s usr (spec_role_name (spec_opposite_role r)) problem q u \<and>
               in_band (age usr) (age u)))"
proof -
  let ?role = "spec_role_name r" and ?opp = "spec_role_name (spec_opposite_role r)"
  let ?rows = "match_query s usr ?role problem"
  have S: "set ?rows = {(q, u). candidate s usr ?opp problem q u}"
    by (simp only: set_match_query opposite_role_spec)
  note O = sorted_match_query[of s usr ?role problem]
  have in_rows: "(q, u) \<in> set ?rows \<longleftrightarrow> candidate s usr ?opp problem q u" for q u
    by (simp only: S) simp
  have found: "(\<exists>q. candidate s usr ?opp problem q m \<and>
           (\<forall>q' u'. candidate s usr ?opp problem q' u' \<longrightarrow> joined_at q \<le> joined_at q')) \<and>
      in_band (age usr) (age m)"
    if "find_match s usr ?role problem = Some m" for m
  proof -
    from find_match_Some[OF that] obtain q rest
      where rows: "?rows = (q, m) # rest" and rec: "in_band (age usr) (age m)" by blast
    have "(q, m) \<in> set ?rows" by (simp only: rows) simp
    then have c: "candidate s usr ?opp problem q m" by (simp only: in_rows)
    have first: "\<forall>x\<in>set rest. joined_at q \<le> (case x of (q', u') \<Rightarrow> joined_at q')"
      using O by (simp only: rows) simp
    have oldest: "joined_at q \<le> joined_at q'" if c': "candidate s usr ?opp problem q' u'" for q' u'
    proof -
      from c' have "(q', u') \<in> set ?rows" by (simp only: in_rows)
      then have "(q', u') = (q, m) \<or> (q', u') \<in> set rest" by (simp only: rows) simp
      then show ?thesis
      proof
        assume "(q', u') = (q, m)" then show ?thesis by simp
      next
        assume "(q', u') \<in> set rest"
        with first have "joined_at q \<le> (case (q', u') of (q', u') \<Rightarrow> joined_at q')" by (rule bspec)
        then show ?thesis by simp
      qed
    qed
    from c oldest rec show ?thesis by blast
  qed
  have none: "find_match s usr ?role problem = None \<longleftrightarrow>
      \<not> (\<exists>q u. candidate s usr ?opp problem q u \<and> in_band (age usr) (age u))"
  proof (cases ?rows)
    case Nil
    have "\<not> candidate s usr ?opp problem q u" for q u
      using in_rows[of q u] by (simp add: Nil)
    moreover have "find_match s usr ?role problem = None" by (simp add: find_match_None Nil)
    ultimately show ?thesis by blast
  next
    case (Cons row rest)
    obtain q m where row: "row = (q, m)" by (cases row)
    have "(q, m) \<in> set ?rows" by (simp add: Cons row)
    then have c: "candidate s usr ?opp problem q m" by (simp only: in_rows)
    then have bm: "in_band (age m) (age usr)" by (simp add: candidate_def)
    have uniform: "in_band (age usr) (age u) \<longleftrightarrow> in_band (age usr) (age m)"
      if c': "candidate s usr ?opp problem q' u" for q' u
    proof -
      from c' have bu: "in_band (age u) (age usr)" by (simp add: candidate_def)
      show ?thesis by (simp only: band_symmetric[OF bu] band_symmetric[OF bm])
    qed
    have fm: "find_match s usr ?role problem = None \<longleftrightarrow> \<not> in_band (age usr) (age m)"
      by (simp add: find_match_None Cons row)
    show ?thesis using fm c uniform by blast
  qed
  show ?thesis
  proof (intro conjI allI impI)
    show "set ?rows = {(q, u). candidate s usr ?opp problem q u}" by (rule S)
    show "sorted (map (\<lambda>(q, u). joined_at q) ?rows)" by (rule O)
    show "find_match s usr ?role problem = None \<longleftrightarrow>
      \<not> (\<exists>q u. candidate s usr ?opp problem q u \<and> in_band (age usr) (age u))" by (rule none)
  next
    fix m assume "find_match s usr ?role problem = Some m"
    from found[OF this]
    show "\<exists>q. candidate s usr ?opp problem q m \<and>
           (\<forall>q' u'. candidate s usr ?opp problem q' u' \<longrightarrow> joined_at q \<le> joined_at q')"
      and "in_band (age usr) (age m)" by blast+
  qed
qed

lemma find_match_fifo_db:
  "find_match fifo_db (mk_user 1 101 16 False None) ''receive_support'' ''study'' =
     Some (mk_user 3 103 18 False None)"
  by (simp add: find_match_def match_query_def fifo_db_def mk_user_def mk_entry_def
        get_age_range_def opposite_role_def)

theorem find_match_oldest_reciprocal_candidate_witness:
  "find_match fifo_db (mk_user 1 101 16 False None) ''receive_support'' ''study'' =
     Some (mk_user 3 103 18 False None) \<and>
   (\<exists>q. candidate fifo_db (mk_user 1 101 16 False None) ''support'' ''study'' q
          (mk_user 3 103 18 False None) \<and>
        (\<forall>q' u'. candidate fifo_db (mk_user 1 101 16 False None) ''support'' ''study'' q' u' \<longrightarrow>
           joined_at q \<le> joined_at q')) \<and>
   in_band (age (mk_user 1 101 16 False None)) (age (mk_user 3 103 18 False None)) \<and>
   candidate fifo_db (mk_user 1 101 16 False None) ''support'' ''study''
     (mk_entry 1 2 ''support'' ''study'' 17 5) (mk_user 2 102 17 False None)"
proof -
  note T = find_match_oldest_reciprocal_candidate[of fifo_db "mk_user 1 101 16 False None"
      Receive_support "''study''", unfolded spec_role_name.simps spec_opposite_role.simps]
  have c2: "candidate fifo_db (mk_user 1 101 16 False None) ''support'' ''study''
     (mk_entry 1 2 ''support'' ''study'' 17 5) (mk_user 2 102 17 False None)"
    by (simp add: candidate_def fifo_db_def mk_user_def mk_entry_def
          in_band_def get_age_range_def)
  from T find_match_fifo_db c2 show ?thesis by blast
qed

subsection \<open>Viewing a transcript\<close>

text \<open>
  Claim C9. For a registered user who is not banned and the button payload
  \<^verbatim>\<open>view_chat_<chatId>\<close> formatted from the id of a stored chat with at least one
  message, the router answers with the transcript of all messages of that
  chat in the order of their sent timestamps. Nothing is required of the
  viewer: neither being one of the chat's participants nor having a history
  entry for it. Every message whose author is not the viewer carries the
  interlocutor label. A stored id is an integer that SQLite holds.
\<close>

theorem view_chat_shows_any_chat:
  assumes "schema_ok s" and "usr \<in> set (users s)" and "telegram_id usr = tg"
    and "\<not> is_banned usr"
    and "cht \<in> set (chats s)" and "\<exists>m\<in>set (messages s). m_chat_id m = c_id cht"
    and "sqlite_integer (c_id cht)"
  shows "\<exists>lines. handle_callback clk tg (''view_chat_'' @ py_str (c_id cht)) s =
                   Done s [Edit_message_text (Transcript lines)] \<and>
           lines = map (\<lambda>m. (if m_user_id m = u_id usr then You else Interlocutor,
                              m_text m, sent_at m))
                     (sort_key sent_at (filter (\<lambda>m. m_chat_id m = c_id cht) (messages s))) \<and>
           (\<forall>m\<in>set (messages s). m_chat_id m = c_id cht \<longrightarrow>
              (if m_user_id m = u_id usr then You else Interlocutor, m_text m, sent_at m)
                \<in> set lines) \<and>
           (\<forall>m\<in>set (messages s). m_chat_id m = c_id cht \<and> m_user_id m \<noteq> u_id usr \<longrightarrow>
              (Interlocutor, m_text m, sent_at m) \<in> set lines)"
proof -
  let ?msgs = "sort_key sent_at (filter (\<lambda>m. m_chat_id m = c_id cht) (messages s))"
  let ?lines = "map (\<lambda>m. (if m_user_id m = u_id usr then You else Interlocutor,
                              m_text m, sent_at m)) ?msgs"
  have look: "filter (\<lambda>u. telegram_id u = tg) (users s) = [usr]"
    using assms(1,2,3) lookup_by_telegram_id by blast
  have c: "filter (\<lambda>c. c_id c = c_id cht) (chats s) = [cht]"
    using assms(1,5) by (rule lookup_by_c_id)
  have set_msgs: "set ?msgs = {m \<in> set (messages s). m_chat_id m = c_id cht}"
    by simp
  with assms(6) have ne: "?msgs \<noteq> []" by (metis (mono_tags, lifting) empty_iff mem_Collect_eq set_empty)
  have run: "handle_callback clk tg (''view_chat_'' @ py_str (c_id cht)) s =
               Done s [Edit_message_text (Transcript ?lines)]"
    unfolding route_view_chat[OF look assms(4) py_str_plain py_int_py_str]
    using ne assms(7) by (simp add: view_chat_history_def c Let_def)
  have all: "(if m_user_id m = u_id usr then You else Interlocutor, m_text m, sent_at m) \<in> set ?lines"
    if "m \<in> set (messages s)" "m_chat_id m = c_id cht" for m
  proof -
    from that have "m \<in> set ?msgs" by simp
    then show ?thesis by (rule imageI[of m "set ?msgs", unfolded set_map[symmetric]])
  qed
  have others: "(Interlocutor, m_text m, sent_at m) \<in> set ?lines"
    if "m \<in> set (messages s)" "m_chat_id m = c_id cht" "m_user_id m \<noteq> u_id usr" for m
    using all[OF that(1,2)] that(3) by simp
  show ?thesis using run all others by blast
qed

theorem view_chat_shows_any_chat_witness:
  "schema_ok talked_db \<and> mk_user 4 104 18 False None \<in> set (users talked_db) \<and>
   \<not> is_banned (mk_user 4 104 18 False None) \<and>
   mk_chat 1 1 2 True \<in> set (chats talked_db) \<and>
   u_id (mk_user 4 104 18 False None) \<noteq> user1_id (mk_chat 1 1 2 True) \<and>
   u_id (mk_user 4 104 18 False None) \<noteq> user2_id (mk_chat 1 1 2 True) \<and>
   history talked_db = [] \<and> py_str (c_id (mk_chat 1 1 2 True)) = ''1'' \<and>
   handle_callback (\<lambda>k. 0) 104 ''view_chat_1'' talked_db =
     Done talked_db
       [Edit_message_text (Transcript [(Interlocutor, ''hi'', 30), (Interlocutor, ''hello'', 31)])]"
proof -
  have u4: "mk_user 4 104 18 False None \<in> set (users talked_db)"
    and c1: "mk_chat 1 1 2 True \<in> set (chats talked_db)"
    and h: "history talked_db = []"
    and msg: "\<exists>m\<in>set (messages talked_db). m_chat_id m = c_id (mk_chat 1 1 2 True)"
    by (simp_all add: talked_db_def mk_chat_def mk_message_def)
  have t4: "telegram_id (mk_user 4 104 18 False None) = 104"
    and b4: "\<not> is_banned (mk_user 4 104 18 False None)"
    and n1: "u_id (mk_user 4 104 18 False None) \<noteq> user1_id (mk_chat 1 1 2 True)"
    and n2: "u_id (mk_user 4 104 18 False None) \<noteq> user2_id (mk_chat 1 1 2 True)"
    by (simp_all add: mk_user_def mk_chat_def)
  have "py_str 1 = ''1''" by code_simp
  then have parse: "py_str (c_id (mk_chat 1 1 2 True)) = ''1''" by (simp add: mk_chat_def)
  have stored: "sqlite_integer (c_id (mk_chat 1 1 2 True))"
    by (simp add: sqlite_integer_def mk_chat_def)
  from view_chat_shows_any_chat[OF schema_ok_talked_db u4 t4 b4 c1 msg stored, of "\<lambda>k. 0"]
  have "handle_callback (\<lambda>k. 0) 104 (''view_chat_'' @ ''1'') talked_db =
          Done talked_db [Edit_message_text (Transcript
            (map (\<lambda>m. (if m_user_id m = u_id (mk_user 4 104 18 False None) then You else Interlocutor,
                        m_text m, sent_at m))
               (sort_key sent_at (filter (\<lambda>m. m_chat_id m = c_id (mk_chat 1 1 2 True))
                  (messages talked_db)))))]"
    unfolding parse by blast
  then have run: "handle_callback (\<lambda>k. 0) 104 ''view_chat_1'' talked_db =
     Done talked_db
       [Edit_message_text (Transcript [(Interlocutor, ''hi'', 30), (Interlocutor, ''hello'', 31)])]"
    by (simp add: talked_db_def mk_user_def mk_chat_def mk_message_def)
  show ?thesis using schema_ok_talked_db u4 b4 c1 n1 n2 h parse run by blast
qed

subsection \<open>Finding a partner while in a chat\<close>

text \<open>
  The state \<open>rematch_db\<close> is reached from three registered users by six button
  presses: 2 queues, 1 is matched with 2, 3 queues, 2 is matched with 3 while
  still in chat 1, 3 ends that chat, and 2 queues again.
\<close>

lemma rematch_db_reached:
  "db_of (handle_callback (tick 60) 102 ''menu_problem_support_study''
     (db_of (handle_callback (tick 50) 103 ''end_chat''
     (db_of (handle_callback (tick 40) 102 ''menu_problem_receive_study''
     (db_of (handle_callback (tick 30) 103 ''menu_problem_support_study''
     (db_of (handle_callback (tick 20) 101 ''menu_problem_receive_study''
     (db_of (handle_callback (tick 10) 102 ''menu_problem_support_study''
        registered_db))))))))))) = rematch_db"
  by (simp add: registered_db_def rematch_db_def fixture_defs callback_defs)

text \<open>
  Claim C10, as stated, fails in two places. Where the user matched is the
  former partner: in \<open>rematch_db\<close> user 1 refers to chat 1, whose other
  participant is user 2 with no current chat; after user 1's find-partner
  press the reference of user 2 is chat 3. And for a banned user: in
  \<open>banned_db\<close>, which a profane message of user 1 in a chat leads to, user 1
  has a current-chat reference, and the find-partner press is answered with
  the access refusal of the router's first check; nobody is queued.
\<close>

theorem rematch_sets_former_partner_reference:
  "sound rematch_db \<and>
   map telegram_id (users rematch_db) = [101, 102, 103] \<and>
   map u_id (users rematch_db) = [1, 2, 3] \<and>
   map current_chat_id (users rematch_db) = [Some 1, None, None] \<and>
   map c_id (chats rematch_db) = [1, 2] \<and>
   map user1_id (chats rematch_db) = [1, 2] \<and> map user2_id (chats rematch_db) = [2, 3] \<and>
   map u_id (users (db_of (handle_callback (tick 70) 101 ''menu_problem_receive_study''
                             rematch_db))) = [1, 2, 3] \<and>
   map current_chat_id
     (users (db_of (handle_callback (tick 70) 101 ''menu_problem_receive_study'' rematch_db)))
     = [Some 3, Some 3, None] \<and>
   sound banned_db \<and>
   mk_user 1 101 16 True (Some 1) \<in> set (users banned_db) \<and>
   queue_entries banned_db = [mk_entry 1 3 ''support'' ''study'' 18 5] \<and>
   handle_callback (tick 70) 101 ''menu_problem_receive_study'' banned_db =
     Done banned_db [Edit_message_text Access_denied]"
proof -
  have rematch:
    "map telegram_id (users rematch_db) = [101, 102, 103] \<and>
     map u_id (users rematch_db) = [1, 2, 3] \<and>
     map current_chat_id (users rematch_db) = [Some 1, None, None] \<and>
     map c_id (chats rematch_db) = [1, 2] \<and>
     map user1_id (chats rematch_db) = [1, 2] \<and> map user2_id (chats rematch_db) = [2, 3] \<and>
     map u_id (users (db_of (handle_callback (tick 70) 101 ''menu_problem_receive_study''
                               rematch_db))) = [1, 2, 3] \<and>
     map current_chat_id
       (users (db_of (handle_callback (tick 70) 101 ''menu_problem_receive_study'' rematch_db)))
       = [Some 3, Some 3, None]"
    by (simp add: rematch_db_def fixture_defs callback_defs)
  have banned:
    "mk_user 1 101 16 True (Some 1) \<in> set (users banned_db) \<and>
     queue_entries banned_db = [mk_entry 1 3 ''support'' ''study'' 18 5] \<and>
     handle_callback (tick 70) 101 ''menu_problem_receive_study'' banned_db =
       Done banned_db [Edit_message_text Access_denied]"
    by (simp add: handle_callback_def banned_db_def busy_db_def mk_user_def mk_chat_def
          mk_entry_def)
  from sound_rematch_db sound_banned_db rematch banned show ?thesis by (intro conjI) blast+
qed

text \<open>
  Claim C10, amended. For a registered user who is not banned, the
  find-partner branch puts the user in the queue and searches whatever the
  user's current-chat reference is. When a match is found, a new chat is
  appended and every earlier chat row stays as it was, the user's and the
  matched user's references become the new chat's id, and the row of every
  other user is unchanged: the former partner's reference is kept unless the
  former partner is the user matched.
\<close>

theorem menu_rematch_overwrites_reference:
  assumes "schema_ok s" and "usr \<in> set (users s)" and "telegram_id usr = tg"
    and "\<not> is_banned usr" and "CHR ''_'' \<notin> set role"
  shows "\<exists>s2 e.
           add_to_queue (clk 0) (upd_user (u_id usr) (chose role topic) s) usr role topic = Inr s2 \<and>
           filter (\<lambda>q. q_user_id q = u_id usr) (queue_entries s2) = [e] \<and>
           q_role e = role \<and> q_problem_type e = topic \<and> joined_at e = clk 0 \<and>
           (find_match s2 usr role topic = None \<longrightarrow>
              handle_callback clk tg (''menu_problem_'' @ role @ CHR ''_'' # topic) s =
                Done s2 [Edit_message_text Searching, Send_message tg Queued]) \<and>
           (\<forall>m. find_match s2 usr role topic = Some m \<longrightarrow>
              (\<exists>s' new_chat.
                 handle_callback clk tg (''menu_problem_'' @ role @ CHR ''_'' # topic) s =
                   Done s' [Edit_message_text Searching,
                            Send_message tg (Partner_found (age m) (age usr)),
                            Send_message (telegram_id m) (Partner_found (age usr) (age m))] \<and>
                 chats s' = chats s @ [new_chat] \<and>
                 c_id new_chat \<notin> c_id ` set (chats s) \<and>
                 user1_id new_chat = u_id usr \<and> user2_id new_chat = u_id m \<and>
                 is_active new_chat \<and>
                 (\<exists>u\<in>set (users s'). u_id u = u_id usr) \<and>
                 (\<forall>u\<in>set (users s'). u_id u = u_id usr \<or> u_id u = u_id m \<longrightarrow>
                    current_chat_id u = Some (c_id new_chat)) \<and>
                 (\<forall>p\<in>set (users s). u_id p \<noteq> u_id usr \<and> u_id p \<noteq> u_id m \<longrightarrow>
                    p \<in> set (users s'))))"
proof -
  let ?data = "''menu_problem_'' @ role @ CHR ''_'' # topic"
  let ?s1 = "upd_user (u_id usr) (chose role topic) s"
  have look: "filter (\<lambda>u. telegram_id u = tg) (users s) = [usr]"
    using assms(1,2,3) lookup_by_telegram_id by blast
  have q1: "queue_entries ?s1 = queue_entries s" and c1: "chats ?s1 = chats s"
    and u1: "users ?s1 = map (\<lambda>u. if u_id u = u_id usr then chose role topic u else u) (users s)"
    by (simp_all add: upd_user_def)
  from assms(1) have "distinct (map q_id (queue_entries ?s1))"
    and "distinct (map q_user_id (queue_entries ?s1))"
    by (simp_all add: schema_ok_def q1)
  from add_to_queue_step[OF this, of "clk 0" usr role topic]
  obtain s2 e where add: "add_to_queue (clk 0) ?s1 usr role topic = Inr s2"
    and e: "filter (\<lambda>q. q_user_id q = u_id usr) (queue_entries s2) = [e]"
      "q_role e = role" "q_problem_type e = topic" "joined_at e = clk 0"
    and u2: "users s2 = users ?s1" and c2: "chats s2 = chats ?s1"
    by blast
  have run: "handle_callback clk tg ?data s =
           (case find_match s2 usr role topic of
              None \<Rightarrow> Done s2 [Edit_message_text Searching, Send_message (telegram_id usr) Queued]
            | Some m \<Rightarrow>
                Done (remove_from_queue
                        (remove_from_queue (snd (create_chat (clk 1) s2 usr m role topic)) (u_id usr))
                        (u_id m))
                  [Edit_message_text Searching,
                   Send_message (telegram_id usr) (Partner_found (age m) (age usr)),
                   Send_message (telegram_id m) (Partner_found (age usr) (age m))])"
    using route_menu_problem[OF look assms(4), of clk "role @ CHR ''_'' # topic"]
      menu_problem_run[where clk=clk, OF assms(5) add]
    by simp
  have unmatched: "handle_callback clk tg ?data s =
                Done s2 [Edit_message_text Searching, Send_message tg Queued]"
    if "find_match s2 usr role topic = None"
    using run that assms(3) by simp
  have matched: "\<exists>s' new_chat.
                 handle_callback clk tg ?data s =
                   Done s' [Edit_message_text Searching,
                            Send_message tg (Partner_found (age m) (age usr)),
                            Send_message (telegram_id m) (Partner_found (age usr) (age m))] \<and>
                 chats s' = chats s @ [new_chat] \<and>
                 c_id new_chat \<notin> c_id ` set (chats s) \<and>
                 user1_id new_chat = u_id usr \<and> user2_id new_chat = u_id m \<and>
                 is_active new_chat \<and>
                 (\<exists>u\<in>set (users s'). u_id u = u_id usr) \<and>
                 (\<forall>u\<in>set (users s'). u_id u = u_id usr \<or> u_id u = u_id m \<longrightarrow>
                    current_chat_id u = Some (c_id new_chat)) \<and>
                 (\<forall>p\<in>set (users s). u_id p \<noteq> u_id usr \<and> u_id p \<noteq> u_id m \<longrightarrow>
                    p \<in> set (users s'))"
    if fm: "find_match s2 usr role topic = Some m" for m
  proof -
    obtain new_chat s3 where cc: "create_chat (clk 1) s2 usr m role topic = (new_chat, s3)"
      by (cases "create_chat (clk 1) s2 usr m role topic")
    note E = create_chat_effect[OF cc]
    let ?s' = "remove_from_queue (remove_from_queue s3 (u_id usr)) (u_id m)"
    let ?g = "\<lambda>u. if u_id u = u_id usr \<or> u_id u = u_id m
                   then u\<lparr>current_chat_id := Some (c_id new_chat)\<rparr> else u"
    let ?h = "\<lambda>u. if u_id u = u_id usr then chose role topic u else u"
    have out: "handle_callback clk tg ?data s =
                   Done ?s' [Edit_message_text Searching,
                            Send_message tg (Partner_found (age m) (age usr)),
                            Send_message (telegram_id m) (Partner_found (age usr) (age m))]"
      using run fm cc assms(3) by simp
    have chats': "chats ?s' = chats s @ [new_chat]"
      using E(1) c2 c1 by (simp add: remove_from_queue_def)
    have fresh: "c_id new_chat \<notin> c_id ` set (chats s)"
      using next_id_fresh[of "map c_id (chats s)"] E(2) c2 c1 by simp
    have users': "users ?s' = map ?g (map ?h (users s))"
      using E(7) u2 u1 by (simp add: remove_from_queue_def)
    have ex: "\<exists>u\<in>set (users ?s'). u_id u = u_id usr"
    proof
      show "?g (?h usr) \<in> set (users ?s')" unfolding users' using assms(2) by (rule in_map_map)
      show "u_id (?g (?h usr)) = u_id usr" by (simp add: chose_def)
    qed
    have refs: "\<forall>u\<in>set (users ?s'). u_id u = u_id usr \<or> u_id u = u_id m \<longrightarrow>
                    current_chat_id u = Some (c_id new_chat)"
    proof (intro ballI impI)
      fix u assume "u \<in> set (users ?s')" and hit: "u_id u = u_id usr \<or> u_id u = u_id m"
      then have "u \<in> set (map ?g (map ?h (users s)))" by (simp only: users')
      from from_map_map[OF this] obtain p where u: "u = ?g (?h p)" by blast
      have "u_id (?g (?h p)) = u_id p" by (simp add: chose_def)
      with hit u have "u_id p = u_id usr \<or> u_id p = u_id m" by simp
      then show "current_chat_id u = Some (c_id new_chat)"
        unfolding u by (auto simp: chose_def)
    qed
    have frame: "\<forall>p\<in>set (users s). u_id p \<noteq> u_id usr \<and> u_id p \<noteq> u_id m \<longrightarrow>
                    p \<in> set (users ?s')"
    proof (intro ballI impI)
      fix p assume p: "p \<in> set (users s)" "u_id p \<noteq> u_id usr \<and> u_id p \<noteq> u_id m"
      then have "?g (?h p) = p" by simp
      moreover have "?g (?h p) \<in> set (users ?s')" unfolding users' using p(1) by (rule in_map_map)
      ultimately show "p \<in> set (users ?s')" by simp
    qed
    show ?thesis
      by (intro exI[of _ ?s'] exI[of _ new_chat] conjI)
         (rule out chats' fresh E(3) E(4) E(5) ex refs frame)+
  qed
  have body:
    "add_to_queue (clk 0) ?s1 usr role topic = Inr s2 \<and>
     filter (\<lambda>q. q_user_id q = u_id usr) (queue_entries s2) = [e] \<and>
     q_role e = role \<and> q_problem_type e = topic \<and> joined_at e = clk 0 \<and>
     (find_match s2 usr role topic = None \<longrightarrow>
        handle_callback clk tg ?data s =
          Done s2 [Edit_message_text Searching, Send_message tg Queued]) \<and>
     (\<forall>m. find_match s2 usr role topic = Some m \<longrightarrow>
        (\<exists>s' new_chat.
           handle_callback clk tg ?data s =
             Done s' [Edit_message_text Searching,
                      Send_message tg (Partner_found (age m) (age usr)),
                      Send_message (telegram_id m) (Partner_found (age usr) (age m))] \<and>
           chats s' = chats s @ [new_chat] \<and>
           c_id new_chat \<notin> c_id ` set (chats s) \<and>
           user1_id new_chat = u_id usr \<and> user2_id new_chat = u_id m \<and>
           is_active new_chat \<and>
           (\<exists>u\<in>set (users s'). u_id u = u_id usr) \<and>
           (\<forall>u\<in>set (users s'). u_id u = u_id usr \<or> u_id u = u_id m \<longrightarrow>
              current_chat_id u = Some (c_id new_chat)) \<and>
           (\<forall>p\<in>set (users s). u_id p \<noteq> u_id usr \<and> u_id p \<noteq> u_id m \<longrightarrow>
              p \<in> set (users s'))))"
    using add e unmatched matched by (intro conjI impI allI) assumption+
  show ?thesis
    by (rule exI[of _ s2], rule exI[of _ e]) (rule body)
qed

theorem menu_rematch_overwrites_reference_witness:
  "schema_ok busy_db \<and> mk_user 1 101 16 False (Some 1) \<in> set (users busy_db) \<and>
   \<not> is_banned (mk_user 1 101 16 False (Some 1)) \<and> CHR ''_'' \<notin> set ''receive'' \<and>
   current_chat_id (mk_user 1 101 16 False (Some 1)) = Some 1 \<and>
   mk_user 2 102 17 False (Some 1) \<in> set (users busy_db) \<and>
   (\<exists>s' new_chat.
      handle_callback (tick 70) 101 ''menu_problem_receive_study'' busy_db =
        Done s' [Edit_message_text Searching, Send_message 101 (Partner_found 18 16),
                 Send_message 103 (Partner_found 16 18)] \<and>
      chats s' = [mk_chat 1 1 2 True, new_chat] \<and> c_id new_chat \<noteq> 1 \<and>
      (\<exists>u\<in>set (users s'). u_id u = 1 \<and> current_chat_id u = Some (c_id new_chat)) \<and>
      mk_user 2 102 17 False (Some 1) \<in> set (users s'))"
proof -
  let ?u1 = "mk_user 1 101 16 False (Some 1)"
  let ?u2 = "mk_user 2 102 17 False (Some 1)"
  let ?u3 = "mk_user 3 103 18 False None"
  have u1: "?u1 \<in> set (users busy_db)" and u2: "?u2 \<in> set (users busy_db)"
    by (simp_all add: busy_db_def)
  have t1: "telegram_id ?u1 = 101" and b1: "\<not> is_banned ?u1"
    and r1: "current_chat_id ?u1 = Some 1"
    by (simp_all add: mk_user_def)
  have plain: "CHR ''_'' \<notin> set ''receive''" by simp
  from menu_rematch_overwrites_reference[OF schema_ok_busy_db u1 t1 b1 plain,
      of "tick 70" "''study''"]
  obtain s2 where add: "add_to_queue (tick 70 0) (upd_user (u_id ?u1) (chose ''receive'' ''study'') busy_db)
                          ?u1 ''receive'' ''study'' = Inr s2"
    and M: "\<forall>m. find_match s2 ?u1 ''receive'' ''study'' = Some m \<longrightarrow>
              (\<exists>s' new_chat.
                 handle_callback (tick 70) 101 (''menu_problem_'' @ ''receive'' @ CHR ''_'' # ''study'') busy_db =
                   Done s' [Edit_message_text Searching,
                            Send_message 101 (Partner_found (age m) (age ?u1)),
                            Send_message (telegram_id m) (Partner_found (age ?u1) (age m))] \<and>
                 chats s' = chats busy_db @ [new_chat] \<and>
                 c_id new_chat \<notin> c_id ` set (chats busy_db) \<and>
                 user1_id new_chat = u_id ?u1 \<and> user2_id new_chat = u_id m \<and>
                 is_active new_chat \<and>
                 (\<exists>u\<in>set (users s'). u_id u = u_id ?u1) \<and>
                 (\<forall>u\<in>set (users s'). u_id u = u_id ?u1 \<or> u_id u = u_id m \<longrightarrow>
                    current_chat_id u = Some (c_id new_chat)) \<and>
                 (\<forall>p\<in>set (users busy_db). u_id p \<noteq> u_id ?u1 \<and> u_id p \<noteq> u_id m \<longrightarrow>
                    p \<in> set (users s')))"
    by blast
  have fm: "find_match s2 ?u1 ''receive'' ''study'' = Some ?u3"
    using add
    by (auto simp: busy_db_def fixture_defs add_to_queue_def upd_user_def find_match_def
          match_query_def get_age_range_def opposite_role_def next_id_def)
  from M fm obtain s' new_chat where
    run: "handle_callback (tick 70) 101 (''menu_problem_'' @ ''receive'' @ CHR ''_'' # ''study'') busy_db =
                   Done s' [Edit_message_text Searching,
                            Send_message 101 (Partner_found (age ?u3) (age ?u1)),
                            Send_message (telegram_id ?u3) (Partner_found (age ?u1) (age ?u3))]"
    and ch: "chats s' = chats busy_db @ [new_chat]"
    and fresh: "c_id new_chat \<notin> c_id ` set (chats busy_db)"
    and ex: "\<exists>u\<in>set (users s'). u_id u = u_id ?u1"
    and refs: "\<forall>u\<in>set (users s'). u_id u = u_id ?u1 \<or> u_id u = u_id ?u3 \<longrightarrow>
                    current_chat_id u = Some (c_id new_chat)"
    and frame: "\<forall>p\<in>set (users busy_db). u_id p \<noteq> u_id ?u1 \<and> u_id p \<noteq> u_id ?u3 \<longrightarrow>
                    p \<in> set (users s')"
    by blast
  have run': "handle_callback (tick 70) 101 ''menu_problem_receive_study'' busy_db =
        Done s' [Edit_message_text Searching, Send_message 101 (Partner_found 18 16),
                 Send_message 103 (Partner_found 16 18)]"
    using run by (simp add: mk_user_def)
  have ch': "chats s' = [mk_chat 1 1 2 True, new_chat]" using ch by (simp add: busy_db_def)
  have fresh': "c_id new_chat \<noteq> 1" using fresh by (simp add: busy_db_def mk_chat_def)
  have ex': "\<exists>u\<in>set (users s'). u_id u = 1 \<and> current_chat_id u = Some (c_id new_chat)"
    using ex refs by (auto simp: mk_user_def)
  have keep: "?u2 \<in> set (users s')"
    using frame u2 by (auto simp: mk_user_def)
  show ?thesis
    using schema_ok_busy_db u1 b1 plain r1 u2 run' ch' fresh' ex' keep by blast
qed

subsection \<open>Ending a chat\<close>

text \<open>\<open>banned_db\<close> is reached when user 1 of \<open>busy_db\<close> sends a profane message.\<close>

lemma banned_db_reached:
  "db_of (handle_message (\<lambda>t. t = ''bad'') 30 101 ''bad'' busy_db) = banned_db"
  by (simp add: handle_message_def busy_db_def banned_db_def mk_user_def upd_user_def)

text \<open>
  Claim C4, as stated, fails for a banned user: user 1 of \<open>banned_db\<close> refers to
  the stored, active chat 1, and the end-chat press is answered with the
  access refusal of the router's first check; the chat stays active.
\<close>

theorem banned_user_cannot_end_chat:
  "sound banned_db \<and>
   mk_user 1 101 16 True (Some 1) \<in> set (users banned_db) \<and>
   telegram_id (mk_user 1 101 16 True (Some 1)) = 101 \<and>
   mk_chat 1 1 2 True \<in> set (chats banned_db) \<and>
   current_chat_id (mk_user 1 101 16 True (Some 1)) = Some (c_id (mk_chat 1 1 2 True)) \<and>
   handle_callback (tick 40) 101 ''end_chat'' banned_db =
     Done banned_db [Edit_message_text Access_denied] \<and>
   is_active (mk_chat 1 1 2 True) \<and> ended_at (mk_chat 1 1 2 True) = None"
  using sound_banned_db
  by (simp add: handle_callback_def banned_db_def mk_user_def mk_chat_def)

text \<open>
  Claim C4, amended. In a sound state, for a registered user who is not banned
  and whose current-chat reference names a stored chat, the chat has exactly
  one other participant, a stored user, and the end-chat press marks the chat
  inactive with the first clock reading as its ended timestamp, leaves the
  other chats alone, clears the current-chat reference of both participants,
  notifies the partner, and leaves exactly one history row for each of the
  two participants and that chat, stamped with the second and third clock
  reading.
\<close>

theorem end_chat_closes_and_records:
  assumes so: "sound s"
    and usr: "usr \<in> set (users s)" "telegram_id usr = tg" "\<not> is_banned usr"
    and cht: "cht \<in> set (chats s)" "current_chat_id usr = Some (c_id cht)"
  shows "\<exists>s' partner hu hp.
           partner \<in> set (users s) \<and> u_id partner \<noteq> u_id usr \<and>
           (user1_id cht = u_id usr \<and> user2_id cht = u_id partner \<or>
            user1_id cht = u_id partner \<and> user2_id cht = u_id usr) \<and>
           handle_callback clk tg ''end_chat'' s =
             Done s' [Send_message (telegram_id partner) Partner_ended_chat,
                      Edit_message_text Chat_ended] \<and>
           filter (\<lambda>c. c_id c = c_id cht) (chats s') =
             [cht\<lparr>is_active := False, ended_at := Some (clk 0)\<rparr>] \<and>
           filter (\<lambda>c. c_id c \<noteq> c_id cht) (chats s') = filter (\<lambda>c. c_id c \<noteq> c_id cht) (chats s) \<and>
           filter (\<lambda>u. u_id u = u_id usr) (users s') = [usr\<lparr>current_chat_id := None\<rparr>] \<and>
           filter (\<lambda>u. u_id u = u_id partner) (users s') = [partner\<lparr>current_chat_id := None\<rparr>] \<and>
           filter (\<lambda>h. h_user_id h = u_id usr \<and> h_chat_id h = c_id cht) (history s') = [hu] \<and>
           viewed_at hu = clk 1 \<and>
           filter (\<lambda>h. h_user_id h = u_id partner \<and> h_chat_id h = c_id cht) (history s') = [hp] \<and>
           viewed_at hp = clk 2"
proof -
  note ok = soundD(1)[OF so] and co = soundD(2)[OF so]
  from consistentD(2)[OF co usr(1) cht(2)]
  obtain c where c: "c \<in> set (chats s)" "c_id c = c_id cht"
    "user1_id c = u_id usr \<or> user2_id c = u_id usr" by blast
  have "c \<in> set (filter (\<lambda>x. c_id x = c_id cht) (chats s))" using c(1,2) by simp
  then have "c = cht" by (simp only: lookup_by_c_id[OF ok cht(1)]) simp
  with c(3) have part: "user1_id cht = u_id usr \<or> user2_id cht = u_id usr" by simp
  from consistentD(1)[OF co cht(1)]
  have two: "user1_id cht \<noteq> user2_id cht"
    and stored: "user1_id cht \<in> u_id ` set (users s)" "user2_id cht \<in> u_id ` set (users s)"
    by simp_all
  have "other_participant cht (u_id usr) \<in> u_id ` set (users s)"
    using stored by (simp add: other_participant_def)
  then obtain partner where partner: "partner \<in> set (users s)"
    "u_id partner = other_participant cht (u_id usr)" by auto
  have ne: "u_id partner \<noteq> u_id usr"
    using part two partner(2) by (auto simp: other_participant_def)
  have sides: "user1_id cht = u_id usr \<and> user2_id cht = u_id partner \<or>
               user1_id cht = u_id partner \<and> user2_id cht = u_id usr"
    using part two partner(2) by (auto simp: other_participant_def)
  from end_chat_effect[OF ok consistentD(3)[OF co] usr cht part two partner, of clk]
  obtain s' hu hp where E:
    "handle_callback clk tg ''end_chat'' s =
             Done s' [Send_message (telegram_id partner) Partner_ended_chat,
                      Edit_message_text Chat_ended] \<and>
           filter (\<lambda>c. c_id c = c_id cht) (chats s') =
             [cht\<lparr>is_active := False, ended_at := Some (clk 0)\<rparr>] \<and>
           filter (\<lambda>c. c_id c \<noteq> c_id cht) (chats s') = filter (\<lambda>c. c_id c \<noteq> c_id cht) (chats s) \<and>
           filter (\<lambda>u. u_id u = u_id usr) (users s') = [usr\<lparr>current_chat_id := None\<rparr>] \<and>
           filter (\<lambda>u. u_id u = u_id partner) (users s') = [partner\<lparr>current_chat_id := None\<rparr>] \<and>
           filter (\<lambda>h. h_user_id h = u_id usr \<and> h_chat_id h = c_id cht) (history s') = [hu] \<and>
           viewed_at hu = clk 1 \<and>
           filter (\<lambda>h. h_user_id h = u_id partner \<and> h_chat_id h = c_id cht) (history s') = [hp] \<and>
           viewed_at hp = clk 2"
    by blast
  show ?thesis
    apply (rule exI[of _ s'], rule exI[of _ partner], rule exI[of _ hu], rule exI[of _ hp])
    using partner(1) ne sides E by (intro conjI) blast+
qed

theorem end_chat_closes_and_records_witness:
  "sound busy_db \<and>
   mk_user 1 101 16 False (Some 1) \<in> set (users busy_db) \<and>
   \<not> is_banned (mk_user 1 101 16 False (Some 1)) \<and>
   mk_chat 1 1 2 True \<in> set (chats busy_db) \<and>
   current_chat_id (mk_user 1 101 16 False (Some 1)) = Some (c_id (mk_chat 1 1 2 True)) \<and>
   (\<exists>s' hu hp.
      handle_callback (tick 40) 101 ''end_chat'' busy_db =
        Done s' [Send_message 102 Partner_ended_chat, Edit_message_text Chat_ended] \<and>
      filter (\<lambda>c. c_id c = 1) (chats s') =
        [(mk_chat 1 1 2 False)\<lparr>ended_at := Some 40\<rparr>] \<and>
      filter (\<lambda>u. u_id u = 1) (users s') = [mk_user 1 101 16 False None] \<and>
      filter (\<lambda>u. u_id u = 2) (users s') = [mk_user 2 102 17 False None] \<and>
      filter (\<lambda>h. h_user_id h = 1 \<and> h_chat_id h = 1) (history s') = [hu] \<and> viewed_at hu = 41 \<and>
      filter (\<lambda>h. h_user_id h = 2 \<and> h_chat_id h = 1) (history s') = [hp] \<and> viewed_at hp = 42)"
proof -
  let ?u1 = "mk_user 1 101 16 False (Some 1)"
  let ?u2 = "mk_user 2 102 17 False (Some 1)"
  let ?c = "mk_chat 1 1 2 True"
  have u1: "?u1 \<in> set (users busy_db)" and c: "?c \<in> set (chats busy_db)"
    by (simp_all add: busy_db_def)
  have t1: "telegram_id ?u1 = 101" and b1: "\<not> is_banned ?u1"
    and r1: "current_chat_id ?u1 = Some (c_id ?c)"
    by (simp_all add: mk_user_def mk_chat_def)
  from end_chat_closes_and_records[OF sound_busy_db u1 t1 b1 c r1, of "tick 40"]
  obtain s' partner hu hp where
    p: "partner \<in> set (users busy_db)" "u_id partner \<noteq> u_id ?u1"
      "user1_id ?c = u_id ?u1 \<and> user2_id ?c = u_id partner \<or>
       user1_id ?c = u_id partner \<and> user2_id ?c = u_id ?u1"
    and E: "handle_callback (tick 40) 101 ''end_chat'' busy_db =
       Done s' [Send_message (telegram_id partner) Partner_ended_chat, Edit_message_text Chat_ended]"
    "filter (\<lambda>c. c_id c = c_id ?c) (chats s') = [?c\<lparr>is_active := False, ended_at := Some (tick 40 0)\<rparr>]"
    "filter (\<lambda>u. u_id u = u_id ?u1) (users s') = [?u1\<lparr>current_chat_id := None\<rparr>]"
    "filter (\<lambda>u. u_id u = u_id partner) (users s') = [partner\<lparr>current_chat_id := None\<rparr>]"
    "filter (\<lambda>h. h_user_id h = u_id ?u1 \<and> h_chat_id h = c_id ?c) (history s') = [hu]"
    "viewed_at hu = tick 40 1"
    "filter (\<lambda>h. h_user_id h = u_id partner \<and> h_chat_id h = c_id ?c) (history s') = [hp]"
    "viewed_at hp = tick 40 2"
    by blast
  from p have "partner = ?u2"
    by (auto simp: busy_db_def mk_user_def mk_chat_def)
  with E have "handle_callback (tick 40) 101 ''end_chat'' busy_db =
        Done s' [Send_message 102 Partner_ended_chat, Edit_message_text Chat_ended] \<and>
      filter (\<lambda>c. c_id c = 1) (chats s') =
        [(mk_chat 1 1 2 False)\<lparr>ended_at := Some 40\<rparr>] \<and>
      filter (\<lambda>u. u_id u = 1) (users s') = [mk_user 1 101 16 False None] \<and>
      filter (\<lambda>u. u_id u = 2) (users s') = [mk_user 2 102 17 False None] \<and>
      filter (\<lambda>h. h_user_id h = 1 \<and> h_chat_id h = 1) (history s') = [hu] \<and> viewed_at hu = 41 \<and>
      filter (\<lambda>h. h_user_id h = 2 \<and> h_chat_id h = 1) (history s') = [hp] \<and> viewed_at hp = 42"
    by (simp add: mk_user_def mk_chat_def tick_def)
  then have "\<exists>s' hu hp.
      handle_callback (tick 40) 101 ''end_chat'' busy_db =
        Done s' [Send_message 102 Partner_ended_chat, Edit_message_text Chat_ended] \<and>
      filter (\<lambda>c. c_id c = 1) (chats s') =
        [(mk_chat 1 1 2 False)\<lparr>ended_at := Some 40\<rparr>] \<and>
      filter (\<lambda>u. u_id u = 1) (users s') = [mk_user 1 101 16 False None] \<and>
      filter (\<lambda>u. u_id u = 2) (users s') = [mk_user 2 102 17 False None] \<and>
      filter (\<lambda>h. h_user_id h = 1 \<and> h_chat_id h = 1) (history s') = [hu] \<and> viewed_at hu = 41 \<and>
      filter (\<lambda>h. h_user_id h = 2 \<and> h_chat_id h = 1) (history s') = [hp] \<and> viewed_at hp = 42"
    by blast
  with sound_busy_db u1 b1 c r1 show ?thesis by blast
qed

subsection \<open>History bound\<close>

text \<open>
  The history block never takes a row away: a pair of user and chat that is
  not yet recorded is appended, whatever the count of the user's rows, and the
  ids of the rows present before are all still there afterwards.
\<close>

lemma record_history_new_pair:
  assumes "filter (\<lambda>h. h_user_id h = uid \<and> h_chat_id h = cid) (history s) = []"
  shows "record_history now uid cid s =
           Inr (s\<lparr>history := history s @
                  [\<lparr>h_id = next_id (map h_id (history s)), h_user_id = uid, h_chat_id = cid,
                    viewed_at = now\<rparr>]\<rparr>)"
  by (simp add: record_history_def assms session_delete_not_awaited_def Let_def split: list.splits)

lemma record_history_keeps_every_row:
  assumes "record_history now uid cid s = Inr s'"
  shows "map h_id (history s) = take (length (history s)) (map h_id (history s'))"
proof (cases "scalar_one_or_none (filter (\<lambda>h. h_user_id h = uid \<and> h_chat_id h = cid) (history s))")
  case (Inl e)
  with assms show ?thesis by (simp add: record_history_def)
next
  case (Inr found)
  show ?thesis
  proof (cases found)
    case None
    with Inr assms show ?thesis
      by (auto simp: record_history_def session_delete_not_awaited_def Let_def split: list.splits)
  next
    case (Some existing_entry)
    have "map h_id (map (\<lambda>h. if h_id h = h_id existing_entry then h\<lparr>viewed_at := now\<rparr> else h)
                      (history s)) = map h_id (history s)"
      by (rule map_key_preserved) simp
    with Some Inr assms show ?thesis
      by (auto simp: record_history_def)
  qed
qed

text \<open>
  Claim C5 (at most three history rows per user after a recording, the row
  with the oldest viewed timestamp evicted first) does not hold of the code,
  since the eviction is never carried out. In \<open>veteran_db\<close> users 1 and 2 have
  three rows each, for chats 1 to 3; after user 1 ends chat 4 each of them has
  four rows, the oldest, for chat 1, among them.
\<close>

theorem fourth_chat_leaves_four_history_rows:
  "map h_user_id (history veteran_db) = [1, 2, 1, 2, 1, 2] \<and>
   map h_chat_id (history veteran_db) = [1, 1, 2, 2, 3, 3] \<and>
   map h_user_id (history (db_of (handle_callback (tick 40) 101 ''end_chat'' veteran_db)))
     = [1, 2, 1, 2, 1, 2, 1, 2] \<and>
   map h_chat_id (history (db_of (handle_callback (tick 40) 101 ''end_chat'' veteran_db)))
     = [1, 1, 2, 2, 3, 3, 4, 4] \<and>
   map viewed_at (history (db_of (handle_callback (tick 40) 101 ''end_chat'' veteran_db)))
     = [11, 12, 21, 22, 31, 32, 41, 42]"
  by (simp add: veteran_db_def mk_history_def fixture_defs callback_defs)

subsection \<open>Periodic sweep\<close>

text \<open>
  Claim C8. A sweep over an empty queue leaves the database as it is, sends
  nothing and logs no error. In every run, no error is logged, and for each
  queue entry whose user is missing, banned or already has a current chat,
  the entry is gone afterwards, the user's row is as before and no chat
  created by the run has that user as a participant; when the loop comes to
  such an entry, its step is the removal of the entry and nothing else, so no
  match is searched for it. Current-chat references are chat ids, which are
  never 0.
\<close>

theorem sweep_drops_stale_entries:
  assumes ok: "schema_ok s" and nz: "\<forall>u\<in>set (users s). current_chat_id u \<noteq> Some 0"
  shows "(queue_entries s = [] \<longrightarrow> periodic_matchmaking_task clk s = (s, [], None)) \<and>
         (\<exists>s' out. periodic_matchmaking_task clk s = (s', out, None) \<and>
            (\<forall>q\<in>set (queue_entries s). stale s (q_user_id q) \<longrightarrow>
               (\<forall>q'\<in>set (queue_entries s'). q_user_id q' \<noteq> q_user_id q) \<and>
               filter (\<lambda>u. u_id u = q_user_id q) (users s') =
                 filter (\<lambda>u. u_id u = q_user_id q) (users s) \<and>
               (\<forall>c\<in>set (chats s'). c \<in> set (chats s) \<or>
                  (user1_id c \<noteq> q_user_id q \<and> user2_id c \<noteq> q_user_id q)))) \<and>
         (\<forall>w q. passed_over s (q_user_id q) w \<and> stale s (q_user_id q) \<longrightarrow>
            sweep_step clk q w = Inr (w\<lparr>sw_db := remove_from_queue (sw_db w) (q_user_id q)\<rparr>))"
proof -
  let ?w0 = "\<lparr>sw_db = s, processed_users = {}, sw_ticks = 0, sw_sent = []\<rparr>"
  from ok have d: "distinct (map u_id (users s))" by (simp add: schema_ok_def)
  have empty: "periodic_matchmaking_task clk s = (s, [], None)" if "queue_entries s = []"
    using that by (simp add: periodic_matchmaking_task_def)
  let ?x0 = "next_id (map u_id (users s))"
  have "\<forall>u\<in>set (users s). u_id u \<noteq> ?x0"
    using next_id_greater[of _ "map u_id (users s)"] by fastforce
  then have "stale s ?x0" by (simp add: stale_def)
  from sweep_loop_passes_over[OF this nz passed_over_start[OF d], of clk "queue_entries s"]
  obtain w' where loop: "sweep_loop clk (queue_entries s) ?w0 = (None, w')" by blast
  then have run: "periodic_matchmaking_task clk s = (sw_db w', sw_sent w', None)"
    by (simp add: periodic_matchmaking_task_def)
  have dropped: "(\<forall>q'\<in>set (queue_entries (sw_db w')). q_user_id q' \<noteq> q_user_id q) \<and>
               filter (\<lambda>u. u_id u = q_user_id q) (users (sw_db w')) =
                 filter (\<lambda>u. u_id u = q_user_id q) (users s) \<and>
               (\<forall>c\<in>set (chats (sw_db w')). c \<in> set (chats s) \<or>
                  (user1_id c \<noteq> q_user_id q \<and> user2_id c \<noteq> q_user_id q))"
    if q: "q \<in> set (queue_entries s)" and st: "stale s (q_user_id q)" for q
  proof -
    from sweep_loop_passes_over[OF st nz passed_over_start[OF d], of clk "queue_entries s"] loop q
    have "passed_over s (q_user_id q) w'"
      and "\<forall>q'\<in>set (queue_entries (sw_db w')). q_user_id q' \<noteq> q_user_id q"
      by auto
    then show ?thesis by (simp add: passed_over_def)
  qed
  have step: "sweep_step clk q w = Inr (w\<lparr>sw_db := remove_from_queue (sw_db w) (q_user_id q)\<rparr>)"
    if "passed_over s (q_user_id q) w" and "stale s (q_user_id q)" for w q
    using sweep_step_passes_over[OF that(2) nz that(1), of clk q] by auto
  have whole: "\<exists>s' out. periodic_matchmaking_task clk s = (s', out, None) \<and>
            (\<forall>q\<in>set (queue_entries s). stale s (q_user_id q) \<longrightarrow>
               (\<forall>q'\<in>set (queue_entries s'). q_user_id q' \<noteq> q_user_id q) \<and>
               filter (\<lambda>u. u_id u = q_user_id q) (users s') =
                 filter (\<lambda>u. u_id u = q_user_id q) (users s) \<and>
               (\<forall>c\<in>set (chats s'). c \<in> set (chats s) \<or>
                  (user1_id c \<noteq> q_user_id q \<and> user2_id c \<noteq> q_user_id q)))"
    by (rule exI[of _ "sw_db w'"], rule exI[of _ "sw_sent w'"]) (use run dropped in blast)
  from empty whole step show ?thesis by blast
qed


theorem sweep_drops_stale_entries_witness:
  "schema_ok stale_queue_db \<and>
   map current_chat_id (users stale_queue_db) = [None, None, Some 1, Some 1] \<and>
   map q_user_id (queue_entries stale_queue_db) = [2, 3, 9, 1] \<and>
   stale stale_queue_db 2 \<and> stale stale_queue_db 3 \<and> stale stale_queue_db 9 \<and>
   (\<exists>s' out.
      periodic_matchmaking_task (tick 50) stale_queue_db = (s', out, None) \<and>
      filter (\<lambda>q. q_user_id q = 2 \<or> q_user_id q = 3 \<or> q_user_id q = 9) (queue_entries s') = [] \<and>
      filter (\<lambda>u. u_id u = 2) (users s') = [mk_user 2 102 17 True None] \<and>
      filter (\<lambda>u. u_id u = 3) (users s') = [mk_user 3 103 18 False (Some 1)]) \<and>
   queue_entries registered_db = [] \<and>
   periodic_matchmaking_task (tick 50) registered_db = (registered_db, [], None)"
proof -
  let ?D = "stale_queue_db"
  have nz: "\<forall>u\<in>set (users ?D). current_chat_id u \<noteq> Some 0"
    and refs: "map current_chat_id (users ?D) = [None, None, Some 1, Some 1]"
    and ids: "map q_user_id (queue_entries ?D) = [2, 3, 9, 1]"
    and st: "stale ?D 2" "stale ?D 3" "stale ?D 9"
    and q: "mk_entry 1 2 ''support'' ''study'' 17 5 \<in> set (queue_entries ?D)"
           "mk_entry 2 3 ''support'' ''study'' 18 6 \<in> set (queue_entries ?D)"
           "mk_entry 3 9 ''support'' ''study'' 15 7 \<in> set (queue_entries ?D)"
    by (simp_all add: stale_queue_db_def stale_def mk_user_def mk_entry_def)
  have qid: "q_user_id (mk_entry 1 2 ''support'' ''study'' 17 5) = 2"
            "q_user_id (mk_entry 2 3 ''support'' ''study'' 18 6) = 3"
            "q_user_id (mk_entry 3 9 ''support'' ''study'' 15 7) = 9"
    by (simp_all add: mk_entry_def)
  from sweep_drops_stale_entries[OF schema_ok_stale_queue_db nz, of "tick 50"]
  obtain s' out where run: "periodic_matchmaking_task (tick 50) ?D = (s', out, None)"
    and drop: "\<forall>q\<in>set (queue_entries ?D). stale ?D (q_user_id q) \<longrightarrow>
               (\<forall>q'\<in>set (queue_entries s'). q_user_id q' \<noteq> q_user_id q) \<and>
               filter (\<lambda>u. u_id u = q_user_id q) (users s') =
                 filter (\<lambda>u. u_id u = q_user_id q) (users ?D)"
    by blast
  from drop q st qid
  have gone: "\<forall>q'\<in>set (queue_entries s'). q_user_id q' \<noteq> 2"
             "\<forall>q'\<in>set (queue_entries s'). q_user_id q' \<noteq> 3"
             "\<forall>q'\<in>set (queue_entries s'). q_user_id q' \<noteq> 9"
    and rows: "filter (\<lambda>u. u_id u = 2) (users s') = filter (\<lambda>u. u_id u = 2) (users ?D)"
              "filter (\<lambda>u. u_id u = 3) (users s') = filter (\<lambda>u. u_id u = 3) (users ?D)"
    by metis+
  from gone have none:
    "filter (\<lambda>q. q_user_id q = 2 \<or> q_user_id q = 3 \<or> q_user_id q = 9) (queue_entries s') = []"
    by (simp add: filter_empty_conv)
  from rows have rows':
    "filter (\<lambda>u. u_id u = 2) (users s') = [mk_user 2 102 17 True None]"
    "filter (\<lambda>u. u_id u = 3) (users s') = [mk_user 3 103 18 False (Some 1)]"
    by (simp_all add: stale_queue_db_def mk_user_def)
  have A: "\<exists>s' out.
      periodic_matchmaking_task (tick 50) ?D = (s', out, None) \<and>
      filter (\<lambda>q. q_user_id q = 2 \<or> q_user_id q = 3 \<or> q_user_id q = 9) (queue_entries s') = [] \<and>
      filter (\<lambda>u. u_id u = 2) (users s') = [mk_user 2 102 17 True None] \<and>
      filter (\<lambda>u. u_id u = 3) (users s') = [mk_user 3 103 18 False (Some 1)]"
    using run none rows' by blast
  have nz0: "\<forall>u\<in>set (users registered_db). current_chat_id u \<noteq> Some 0"
    and e0: "queue_entries registered_db = []"
    by (simp_all add: registered_db_def mk_user_def)
  from sweep_drops_stale_entries[OF schema_ok_registered_db nz0, of "tick 50"] e0
  have B: "periodic_matchmaking_task (tick 50) registered_db = (registered_db, [], None)"
    by blast
  show ?thesis
    using schema_ok_stale_queue_db refs ids st A e0 B by blast
qed

end
